theory Spec2Isabelle
  imports Main "HOL-Library.AList" "HOL-Library.Sublist"
begin

section \<open>The Android Archive transform hook (android/cli/hooks/aar-transform.js)\<close>

text \<open>
  The hook hashes every .aar file of a build, looks for byte-identical duplicates, reuses the
  result of an earlier build from a JSON file cache or runs the external transformer,
  rejects two libraries with one package name, and finally prunes and persists the cache.

  The asynchronous waterfall of the source is a sequential pipeline. Every function of
  the pipeline is modelled as a function from the state of the run to a callback result
  and the new state. What belongs to Node and to the external transformer (the read
  stream, SHA-1, JSON, the transformer itself, I/O faults of a write) is a field of the
  record \<open>platform\<close>, so that every theorem holds for any such platform.
\<close>

subsection \<open>Constants\<close>

definition HOOK_DATA_VERSION :: string where
  "HOOK_DATA_VERSION = ''1''"

text \<open>The reserved cache key that holds the version of the data structure.\<close>

definition data_version :: string where
  "data_version = ''data-version''"

datatype build_variant = BUILD_VARIANT_MODULE | BUILD_VARIANT_APP

datatype library_origin =
  LIBRARY_ORIGIN_CORE | LIBRARY_ORIGIN_MODULE | LIBRARY_ORIGIN_PORJECT

subsection \<open>Data\<close>

record module_info =
  module_id :: string
  modulePath :: string

text \<open>A transform task as the two scanners build it.\<close>

record task_info =
  aarPathAndFilename :: string
  originType :: library_origin
  moduleInfo :: "module_info option"

text \<open>What the external transformer hands to its callback on success.\<close>

record transform_result =
  packageName :: string
  explodedPath :: string
  jars :: "string list"
  nativeLibraries :: "string list"

text \<open>\<open>libraryInfo\<close>: the transformer's result with the hash and the task added.\<close>

record library_info = transform_result +
  sha256 :: string
  task :: task_info

record transform_options =
  optAarPathAndFilename :: string
  outputPath :: string
  assetsDestinationPath :: "string option"
  sharedLibraryDestinationPath :: "string option"

text \<open>
  The cache is a JavaScript object read from JSON: the version string under
  \<open>data-version\<close>, a \<open>libraryInfo\<close> under the hash of every transformed file. It is an
  association list, in the order \<open>Object.keys\<close> enumerates. A file whose JSON is not
  an object of such entries is not modelled.
\<close>

datatype cache_value = VersionTag string | Library library_info

type_synonym cache_data = "(string \<times> cache_value) list"

datatype node = File string | Directory

type_synonym filesystem = "string \<rightharpoonup> node"

text \<open>
  What a read stream delivers to its listeners: a \<open>readable\<close> event, at which
  \<open>read()\<close> returns a chunk or \<open>null\<close> (the end of the data), or an \<open>error\<close> event.
\<close>

datatype stream_event = Readable "string option" | ErrorEvent string

record platform =
  createReadStream :: "filesystem \<Rightarrow> string \<Rightarrow> stream_event list"
  sha1 :: "string \<Rightarrow> nat list"
  jsonParse :: "string \<Rightarrow> cache_data option"
  jsonStringify :: "cache_data \<Rightarrow> string"
  aarTransform :: "transform_options \<Rightarrow> filesystem \<Rightarrow> (string + transform_result) \<times> filesystem"
  writeFault :: "string \<Rightarrow> string \<Rightarrow> nat option"

text \<open>
  The errors the pipeline passes to its callbacks, and the ways in which a callback is
  never reached: an exception thrown inside an event handler (a \<open>TypeError\<close>, an
  \<open>error\<close> event nobody listens to, a failing synchronous file operation) or a stream
  that stops without a last \<open>readable\<close> event.
\<close>

datatype hook_error = SkipLibraryError | TransformError string | ConflictError string

datatype fault = UnhandledStreamError string | TypeError | IoFault | StreamStalled

datatype 'a cb = Ok 'a | Err hook_error | Broken fault

datatype log_entry =
  NoAarFiles
  | CacheOutOfDate
  | TransformingBundled
  | NotChanged string

record builder =
  buildIntermediatesDir :: string
  buildBinAssetsDir :: string
  localJniGenDir :: string
  androidLibraries :: "library_info list"
  classPaths :: "string \<rightharpoonup> nat"

text \<open>
  The state of one run: the cache's data, the two registries, the builder, the disk,
  and three logs that record the calls of \<open>transformer.transform\<close>, of
  \<open>fs.writeFileSync\<close> and of \<open>logger.trace\<close>. The registries are objects used as
  maps from hex digests and from Android package names; a key that names a property every
  object inherits (\<open>constructor\<close>, \<open>toString\<close>, ...) is no digest and no dotted
  package name, and is not modelled.
\<close>

record hook_state =
  cacheData :: cache_data
  libraryHashMap :: "(string \<times> library_info) list"
  packageNameMap :: "(string \<times> library_info) list"
  builder :: builder
  disk :: filesystem
  transformCalls :: "transform_options list"
  fileWrites :: "(string \<times> string) list"
  trace :: "log_entry list"

subsection \<open>Paths and files\<close>

text \<open>\<open>path.join\<close> and \<open>path.dirname\<close> on POSIX paths without a trailing slash.\<close>

definition path_join :: "string \<Rightarrow> string \<Rightarrow> string" where
  "path_join a b = a @ ''/'' @ b"

definition path_dirname :: "string \<Rightarrow> string" where
  "path_dirname p = rev (tl (dropWhile (\<lambda>c. c \<noteq> CHR ''/'') (rev p)))"

definition existsSync :: "filesystem \<Rightarrow> string \<Rightarrow> bool" where
  "existsSync fs p = (fs p \<noteq> None)"

text \<open>\<open>None\<close> is the exception of the synchronous call.\<close>

definition readFileSync :: "filesystem \<Rightarrow> string \<Rightarrow> string option" where
  "readFileSync fs p = (case fs p of Some (File c) \<Rightarrow> Some c | _ \<Rightarrow> None)"

definition unlinkSync :: "filesystem \<Rightarrow> string \<Rightarrow> filesystem option" where
  "unlinkSync fs p = (case fs p of Some (File c) \<Rightarrow> Some (fs(p := None)) | _ \<Rightarrow> None)"

text \<open>\<open>wrench.mkdirSyncRecursive\<close> returns silently when the path exists.\<close>

definition mkdirSyncRecursive :: "filesystem \<Rightarrow> string \<Rightarrow> filesystem" where
  "mkdirSyncRecursive fs d = (case fs d of None \<Rightarrow> fs(d \<mapsto> Directory) | Some n \<Rightarrow> fs)"

text \<open>
  \<open>fs.writeFileSync\<close> opens the file for writing, which needs the parent directory and
  truncates the file, and writes the data in place. When the platform reports an I/O
  fault after \<open>k\<close> bytes, the call throws and the file keeps the \<open>k\<close> bytes written so
  far. The result says whether the call returned.
\<close>

definition writeFileSync :: "platform \<Rightarrow> string \<Rightarrow> string \<Rightarrow> filesystem \<Rightarrow> bool \<times> filesystem" where
  "writeFileSync P p content fs =
     (case fs (path_dirname p) of
        Some Directory \<Rightarrow>
         (case fs p of
            Some Directory \<Rightarrow> (False, fs)
          | _ \<Rightarrow>
             (case writeFault P p content of
                None \<Rightarrow> (True, fs(p \<mapsto> File content))
              | Some k \<Rightarrow> (False, fs(p \<mapsto> File (take k content)))))
      | _ \<Rightarrow> (False, fs))"

subsection \<open>SimpleFileCache\<close>

text \<open>
  The constructor: \<open>None\<close> when \<open>unlinkSync\<close> in the \<open>catch\<close> block throws, otherwise
  the data and the disk.
\<close>

definition newSimpleFileCache :: "platform \<Rightarrow> string \<Rightarrow> filesystem \<Rightarrow> (cache_data \<times> filesystem) option" where
  "newSimpleFileCache P cachePathAndFilename fs =
     (if existsSync fs cachePathAndFilename then
        (case Option.bind (readFileSync fs cachePathAndFilename) (jsonParse P) of
           Some d \<Rightarrow> Some (d, fs)
         | None \<Rightarrow>
            (case unlinkSync fs cachePathAndFilename of
               Some fs' \<Rightarrow> Some ([], fs')
             | None \<Rightarrow> None))
      else Some ([], fs))"

definition cache_has :: "cache_data \<Rightarrow> string \<Rightarrow> bool" where
  "cache_has d k = (map_of d k \<noteq> None)"

definition cache_get :: "cache_data \<Rightarrow> string \<Rightarrow> cache_value option" where
  "cache_get d k = (if cache_has d k then map_of d k else None)"

definition cache_set :: "cache_data \<Rightarrow> string \<Rightarrow> cache_value \<Rightarrow> cache_data" where
  "cache_set d k v = AList.update k v d"

definition cache_keys :: "cache_data \<Rightarrow> string list" where
  "cache_keys d = map fst d"

definition cache_remove :: "cache_data \<Rightarrow> string \<Rightarrow> cache_data" where
  "cache_remove d k = (if cache_has d k then AList.delete k d else d)"

definition cache_flush :: "cache_data \<Rightarrow> cache_data" where
  "cache_flush d = []"

text \<open>
  \<open>persist\<close>: \<open>fs.exists\<close> is the asynchronous call; without a callback it returns
  \<open>undefined\<close>, so the directory is always made.
\<close>

definition persist :: "platform \<Rightarrow> string \<Rightarrow> hook_state \<Rightarrow> unit cb \<times> hook_state" where
  "persist P cachePathAndFilename s =
     (let dataToWrite = jsonStringify P (cacheData s);
          fs1 = mkdirSyncRecursive (disk s) (path_dirname cachePathAndFilename);
          (returned, fs2) = writeFileSync P cachePathAndFilename dataToWrite fs1;
          s' = s\<lparr>disk := fs2, fileWrites := fileWrites s @ [(cachePathAndFilename, dataToWrite)]\<rparr>
      in (if returned then Ok () else Broken IoFault, s'))"

subsection \<open>The steps of the waterfall\<close>

text \<open>\<open>hash.digest('hex')\<close>: two lower-case hexadecimal digits for every byte.\<close>

definition hexDigit :: "nat \<Rightarrow> char" where
  "hexDigit n = ''0123456789abcdef'' ! (n mod 16)"

definition hexEncode :: "nat list \<Rightarrow> string" where
  "hexEncode bs = concat (map (\<lambda>b. [hexDigit (b div 16), hexDigit b]) bs)"

text \<open>
  \<open>hashFile\<close> listens to \<open>readable\<close> only. A chunk updates the hash (the data hashed
  are the chunks so far, in order); \<open>null\<close> ends it and calls \<open>done\<close> with the digest.
  An \<open>error\<close> event has no listener, so the emitter throws it and \<open>done\<close> is not
  called; neither is it when the events end before \<open>null\<close> was read.
\<close>

fun hashFileEvents :: "(string \<Rightarrow> nat list) \<Rightarrow> string \<Rightarrow> stream_event list \<Rightarrow> string cb" where
  "hashFileEvents h acc [] = Broken StreamStalled"
| "hashFileEvents h acc (Readable (Some chunk) # evs) = hashFileEvents h (acc @ chunk) evs"
| "hashFileEvents h acc (Readable None # evs) = Ok (hexEncode (h acc))"
| "hashFileEvents h acc (ErrorEvent e # evs) = Broken (UnhandledStreamError e)"

definition hashFile :: "platform \<Rightarrow> task_info \<Rightarrow> hook_state \<Rightarrow> string cb \<times> hook_state" where
  "hashFile P transformTaskInfo s =
     (hashFileEvents (sha1 P) [] (createReadStream P (disk s) (aarPathAndFilename transformTaskInfo)), s)"

text \<open>
  \<open>skipLibraryIfDuplicate\<close>. For a hash that is registered, line 195 builds its log line
  from \<open>libraryHashMap[hash].aarPathAndFilename.cyan\<close>. The registry holds
  \<open>libraryInfo\<close> objects, which keep the path under \<open>task\<close>: \<open>aarPathAndFilename\<close> is
  \<open>undefined\<close> on them, and reading \<open>cyan\<close> of it throws, before \<open>logger.trace\<close> is
  called and before \<open>done(new SkipLibraryError())\<close> in line 196.
\<close>

definition skipLibraryIfDuplicate :: "task_info \<Rightarrow> string \<Rightarrow> hook_state \<Rightarrow> string cb \<times> hook_state" where
  "skipLibraryIfDuplicate transformTaskInfo hash s =
     (case map_of (libraryHashMap s) hash of
        None \<Rightarrow> (Ok hash, s)
      | Some dup \<Rightarrow> (Broken TypeError, s))"

definition aarOutputPath :: "builder \<Rightarrow> string" where
  "aarOutputPath b = path_join (buildIntermediatesDir b) ''exploded-aar''"

definition transformOptions :: "builder \<Rightarrow> build_variant \<Rightarrow> task_info \<Rightarrow> transform_options" where
  "transformOptions b buildVariant transformTaskInfo =
     \<lparr>optAarPathAndFilename = aarPathAndFilename transformTaskInfo,
      outputPath = aarOutputPath b,
      assetsDestinationPath =
        (if buildVariant = BUILD_VARIANT_APP then Some (buildBinAssetsDir b) else None),
      sharedLibraryDestinationPath =
        (if buildVariant = BUILD_VARIANT_MODULE then Some (localJniGenDir b) else None)\<rparr>"

text \<open>
  The second half of \<open>doTransform\<close> (lines 222 to 247): the options, the call of the
  transformer and its callback.
\<close>

definition invokeTransform :: "platform \<Rightarrow> build_variant \<Rightarrow> task_info \<Rightarrow> string \<Rightarrow> hook_state \<Rightarrow> library_info cb \<times> hook_state" where
  "invokeTransform P buildVariant transformTaskInfo hash s =
     (let opts = transformOptions (builder s) buildVariant transformTaskInfo;
          (r, fs') = aarTransform P opts (disk s);
          s' = s\<lparr>disk := fs', transformCalls := transformCalls s @ [opts]\<rparr>
      in case r of
           Inl err \<Rightarrow> (Err (TransformError err), s')
         | Inr result \<Rightarrow>
            (Ok \<lparr>packageName = packageName result, explodedPath = explodedPath result,
                 jars = jars result, nativeLibraries = nativeLibraries result,
                 sha256 = hash, task = transformTaskInfo\<rparr>, s'))"

text \<open>
  \<open>doTransform\<close> (lines 213 to 221, then the call above). A cached value that is no
  \<open>libraryInfo\<close> has no \<open>task\<close>, and reading \<open>cacheData.task.aarPathAndFilename\<close>
  throws.
\<close>

definition doTransform :: "platform \<Rightarrow> build_variant \<Rightarrow> task_info \<Rightarrow> string \<Rightarrow> hook_state \<Rightarrow> library_info cb \<times> hook_state" where
  "doTransform P buildVariant transformTaskInfo hash s =
     (case cache_get (cacheData s) hash of
        Some (VersionTag x) \<Rightarrow> (Broken TypeError, s)
      | Some (Library cached) \<Rightarrow>
         (if aarPathAndFilename (task cached) = aarPathAndFilename transformTaskInfo
             \<and> existsSync (disk s) (explodedPath cached)
          then (Ok cached, s\<lparr>trace := trace s @ [NotChanged (aarPathAndFilename transformTaskInfo)]\<rparr>)
          else invokeTransform P buildVariant transformTaskInfo hash s)
      | None \<Rightarrow> invokeTransform P buildVariant transformTaskInfo hash s)"

text \<open>
  \<open>formatDupeInfo\<close>; \<open>None\<close> is the \<open>TypeError\<close> of \<open>moduleInfo.id\<close> on a task of
  origin Module that has no \<open>moduleInfo\<close>.
\<close>

definition formatDupeInfo :: "library_info \<Rightarrow> string option" where
  "formatDupeInfo dupeLibraryInfo =
     (let infoString = aarPathAndFilename (task dupeLibraryInfo) @ '' (hash: '' @ sha256 dupeLibraryInfo
      in if originType (task dupeLibraryInfo) = LIBRARY_ORIGIN_MODULE then
           (case moduleInfo (task dupeLibraryInfo) of
              None \<Rightarrow> None
            | Some m \<Rightarrow> Some (infoString @ '', origin: Module '' @ module_id m @ '')''))
         else if originType (task dupeLibraryInfo) = LIBRARY_ORIGIN_PORJECT then
           Some (infoString @ '', origin: Project'' @ '')'')
         else Some (infoString @ '')''))"

text \<open>
  The three advices of \<open>ensureUniquePackageName\<close> and their choice (lines 279 to 285);
  no advice is given when neither origin is Project and not both are Module.
\<close>

definition guidanceModules :: string where
  "guidanceModules = ''Please either select a version of these modules where the conflicting .aar file is the same or you can try removing the .aar file from one module's \"lib\" folder.''"

definition guidanceProject :: string where
  "guidanceProject = ''Please either remove the duplicate .aar file or change the package name of one Android Library if possible.''"

definition guidanceMixed :: string where
  "guidanceMixed = ''Please make sure the .aar files in your project and the module match or try removing either the one in your project or in the module.''"

definition guidance :: "library_origin \<Rightarrow> library_origin \<Rightarrow> string" where
  "guidance existingOrigin newOrigin =
     (if existingOrigin = LIBRARY_ORIGIN_MODULE \<and> newOrigin = LIBRARY_ORIGIN_MODULE then guidanceModules
      else if existingOrigin = LIBRARY_ORIGIN_PORJECT \<and> newOrigin = LIBRARY_ORIGIN_PORJECT then guidanceProject
      else if existingOrigin = LIBRARY_ORIGIN_PORJECT \<or> newOrigin = LIBRARY_ORIGIN_PORJECT then guidanceMixed
      else [])"

text \<open>The error message (lines 276 to 285), from the two descriptions of \<open>formatDupeInfo\<close>.\<close>

definition conflictMessage :: "library_info \<Rightarrow> string \<Rightarrow> library_info \<Rightarrow> string \<Rightarrow> string" where
  "conflictMessage existingLibrary existingInfo libraryInfo newInfo =
     ''Conflicting Android Libraries with package name \"'' @ packageName libraryInfo @ ''\" detected:'' @ [CHR 0x0A]
     @ ''  '' @ existingInfo @ [CHR 0x0A]
     @ ''  '' @ newInfo @ [CHR 0x0A, CHR 0x0A]
     @ guidance (originType (task existingLibrary)) (originType (task libraryInfo))"

definition ensureUniquePackageName :: "library_info \<Rightarrow> hook_state \<Rightarrow> library_info cb \<times> hook_state" where
  "ensureUniquePackageName libraryInfo s =
     (case map_of (packageNameMap s) (packageName libraryInfo) of
        None \<Rightarrow> (Ok libraryInfo, s)
      | Some existingLibrary \<Rightarrow>
         (case formatDupeInfo existingLibrary of
            None \<Rightarrow> (Broken TypeError, s)
          | Some existingInfo \<Rightarrow>
             (case formatDupeInfo libraryInfo of
                None \<Rightarrow> (Broken TypeError, s)
              | Some newInfo \<Rightarrow>
                 (Err (ConflictError (conflictMessage existingLibrary existingInfo libraryInfo newInfo)), s))))"

definition updateBuilderWithTransformResult :: "build_variant \<Rightarrow> library_info \<Rightarrow> hook_state \<Rightarrow> unit cb \<times> hook_state" where
  "updateBuilderWithTransformResult buildVariant libraryInfo s =
     (let b = builder s;
          cp = (if buildVariant = BUILD_VARIANT_MODULE
                then foldl (\<lambda>m jarPathAndFilename. m(jarPathAndFilename \<mapsto> 1)) (classPaths b) (jars libraryInfo)
                else classPaths b)
      in (Ok (),
          s\<lparr>libraryHashMap := AList.update (sha256 libraryInfo) libraryInfo (libraryHashMap s),
            packageNameMap := AList.update (packageName libraryInfo) libraryInfo (packageNameMap s),
            builder := b\<lparr>classPaths := cp, androidLibraries := androidLibraries b @ [libraryInfo]\<rparr>,
            cacheData := cache_set (cacheData s) (sha256 libraryInfo) (Library libraryInfo)\<rparr>))"

subsection \<open>The waterfall and the series\<close>

text \<open>\<open>async.waterfall\<close>: the next function runs on the result unless an error was passed.\<close>

definition waterfall :: "'a cb \<times> hook_state \<Rightarrow> ('a \<Rightarrow> hook_state \<Rightarrow> 'b cb \<times> hook_state) \<Rightarrow> 'b cb \<times> hook_state" where
  "waterfall r f =
     (case r of
        (Ok x, s) \<Rightarrow> f x s
      | (Err e, s) \<Rightarrow> (Err e, s)
      | (Broken x, s) \<Rightarrow> (Broken x, s))"

text \<open>The function that \<open>async.eachSeries\<close> calls for every task: the waterfall of the five steps.\<close>

definition processTask :: "platform \<Rightarrow> build_variant \<Rightarrow> task_info \<Rightarrow> hook_state \<Rightarrow> unit cb \<times> hook_state" where
  "processTask P buildVariant transformTaskInfo s =
     waterfall
       (waterfall
          (waterfall
             (waterfall (hashFile P transformTaskInfo s)
                (skipLibraryIfDuplicate transformTaskInfo))
             (doTransform P buildVariant transformTaskInfo))
          ensureUniquePackageName)
       (updateBuilderWithTransformResult buildVariant)"

text \<open>
  \<open>async.eachSeries\<close> with the callback of the waterfall: no error and
  \<open>SkipLibraryError\<close> go on to the next task, any other error ends the series.
\<close>

fun eachSeries :: "platform \<Rightarrow> build_variant \<Rightarrow> task_info list \<Rightarrow> hook_state \<Rightarrow> unit cb \<times> hook_state" where
  "eachSeries P buildVariant [] s = (Ok (), s)"
| "eachSeries P buildVariant (transformTaskInfo # rest) s =
     (case processTask P buildVariant transformTaskInfo s of
        (Ok u, s') \<Rightarrow> eachSeries P buildVariant rest s'
      | (Err SkipLibraryError, s') \<Rightarrow> eachSeries P buildVariant rest s'
      | (Err e, s') \<Rightarrow> (Err e, s')
      | (Broken x, s') \<Rightarrow> (Broken x, s'))"

text \<open>
  The callback of the series (lines 322 to 343): pass the error on, or remove the unused
  keys from the cache and persist it.
\<close>

definition unusedKeys :: "hook_state \<Rightarrow> string list" where
  "unusedKeys s =
     (let hashes = map fst (libraryHashMap s)
      in filter (\<lambda>key. if key = data_version then False else key \<notin> set hashes)
           (cache_keys (cacheData s)))"

definition seriesDone :: "platform \<Rightarrow> string \<Rightarrow> unit cb \<times> hook_state \<Rightarrow> unit cb \<times> hook_state" where
  "seriesDone P cachePathAndFilename r =
     (case r of
        (Ok u, s) \<Rightarrow>
          persist P cachePathAndFilename
            (s\<lparr>cacheData := foldl cache_remove (cacheData s) (unusedKeys s)\<rparr>)
      | (Err e, s) \<Rightarrow> (Err e, s)
      | (Broken x, s) \<Rightarrow> (Broken x, s))"

subsection \<open>transformAndroidLibraries\<close>

definition cachePath :: "builder \<Rightarrow> string" where
  "cachePath b = path_join (aarOutputPath b) ''state.json''"

text \<open>The version check on the loaded data (lines 146 to 152) and the log line it writes.\<close>

definition checkDataVersion :: "cache_data \<Rightarrow> cache_data \<times> log_entry list" where
  "checkDataVersion d =
     (let (d1, tr) =
            (if cache_has d data_version then
               (if cache_get d data_version \<noteq> Some (VersionTag HOOK_DATA_VERSION)
                then (cache_flush d, [CacheOutOfDate])
                else (d, []))
             else (d, []))
      in (cache_set d1 data_version (VersionTag HOOK_DATA_VERSION), tr))"

text \<open>
  The state in which the first task starts: empty registries, and nothing called or
  written yet.
\<close>

definition startState :: "builder \<Rightarrow> filesystem \<Rightarrow> cache_data \<Rightarrow> log_entry list \<Rightarrow> hook_state" where
  "startState b fs d tr =
     \<lparr>cacheData = d, libraryHashMap = [], packageNameMap = [], builder = b, disk = fs,
      transformCalls = [], fileWrites = [], trace = tr\<rparr>"

definition transformAndroidLibraries :: "platform \<Rightarrow> task_info list \<Rightarrow> builder \<Rightarrow> build_variant \<Rightarrow> filesystem \<Rightarrow> unit cb \<times> hook_state" where
  "transformAndroidLibraries P transformTasks b buildVariant fs =
     (if length transformTasks = 0 then (Ok (), startState b fs [] [NoAarFiles])
      else
        (case newSimpleFileCache P (cachePath b) fs of
           None \<Rightarrow> (Broken IoFault, startState b fs [] [])
         | Some (loaded, fs1) \<Rightarrow>
            (let (d, tr) = checkDataVersion loaded
             in seriesDone P (cachePath b)
                  (eachSeries P buildVariant transformTasks
                     (startState b fs1 d (tr @ [TransformingBundled]))))))"

subsection \<open>Tasks of the scanners, caches of earlier runs\<close>

text \<open>
  The task objects the scanners push: \<open>scanProjectAndStartTransform\<close> makes one with
  origin Module and the module's info for every .aar file of a module, and one with
  origin Project for every .aar file of the project; \<open>scanModuleAndStartTransform\<close> makes
  the latter only. No task has origin Core.
\<close>

definition moduleLibraryTask :: "string \<Rightarrow> module_info \<Rightarrow> task_info" where
  "moduleLibraryTask file m =
     \<lparr>aarPathAndFilename = file, originType = LIBRARY_ORIGIN_MODULE, moduleInfo = Some m\<rparr>"

definition projectLibraryTask :: "string \<Rightarrow> task_info" where
  "projectLibraryTask file =
     \<lparr>aarPathAndFilename = file, originType = LIBRARY_ORIGIN_PORJECT, moduleInfo = None\<rparr>"

definition scannedTask :: "task_info \<Rightarrow> bool" where
  "scannedTask t =
     (case originType t of
        LIBRARY_ORIGIN_MODULE \<Rightarrow> moduleInfo t \<noteq> None
      | LIBRARY_ORIGIN_PORJECT \<Rightarrow> moduleInfo t = None
      | LIBRARY_ORIGIN_CORE \<Rightarrow> False)"

text \<open>How a conflict message names the origin of a scanned task.\<close>

definition originText :: "task_info \<Rightarrow> string" where
  "originText t =
     (case moduleInfo t of
        Some m \<Rightarrow> ''origin: Module '' @ module_id m
      | None \<Rightarrow> ''origin: Project'')"

text \<open>
  A cache as this hook writes it: a version string is stored under the reserved key
  only, and a library under its own hash.
\<close>

definition cacheWellFormed :: "cache_data \<Rightarrow> bool" where
  "cacheWellFormed d =
     list_all (\<lambda>(k, v). case v of VersionTag x \<Rightarrow> k = data_version | Library r \<Rightarrow> sha256 r = k) d"

text \<open>The condition of \<open>doTransform\<close> under which the cached result is used.\<close>

definition cacheHit :: "hook_state \<Rightarrow> task_info \<Rightarrow> string \<Rightarrow> library_info \<Rightarrow> bool" where
  "cacheHit s t h cached =
     (map_of (cacheData s) h = Some (Library cached)
      \<and> aarPathAndFilename (task cached) = aarPathAndFilename t
      \<and> existsSync (disk s) (explodedPath cached))"

fun isNotChanged :: "log_entry \<Rightarrow> bool" where
  "isNotChanged (NotChanged a) = True"
| "isNotChanged e = False"

text \<open>The libraries the run has pushed to a builder that held \<open>base\<close> before.\<close>

definition acceptedThisRun :: "library_info list \<Rightarrow> hook_state \<Rightarrow> library_info list" where
  "acceptedThisRun base s = drop (length base) (androidLibraries (builder s))"

definition registriesConsistent :: "library_info list \<Rightarrow> hook_state \<Rightarrow> bool" where
  "registriesConsistent base s =
     (list_all (\<lambda>(h, r). sha256 r = h \<and> r \<in> set (acceptedThisRun base s)) (libraryHashMap s)
      \<and> list_all (\<lambda>(n, r). packageName r = n \<and> r \<in> set (acceptedThisRun base s)) (packageNameMap s)
      \<and> take (length base) (androidLibraries (builder s)) = base
      \<and> list_all
          (\<lambda>r. map_of (libraryHashMap s) (sha256 r) = Some r
               \<and> map_of (packageNameMap s) (packageName r) = Some r
               \<and> map_of (cacheData s) (sha256 r) = Some (Library r))
          (acceptedThisRun base s))"

subsection \<open>A small platform, to run the hook on\<close>

text \<open>
  Files are read in one chunk; reading a directory or a missing file is an \<open>error\<close>
  event. The digest is one byte, the length of the content. Four file contents parse as
  caches. The transformer names the package after the first character of the file name
  and explodes every archive into one directory.
\<close>

definition libraryA :: library_info where
  "libraryA =
     \<lparr>packageName = ''p.a'', explodedPath = ''i/exploded-aar/x'', jars = [], nativeLibraries = [],
      sha256 = ''02'', task = projectLibraryTask ''a''\<rparr>"

definition libraryGone :: library_info where
  "libraryGone =
     \<lparr>packageName = ''p.g'', explodedPath = ''i/exploded-aar/g'', jars = [], nativeLibraries = [],
      sha256 = ''0f'', task = projectLibraryTask ''g''\<rparr>"

definition demoParse :: "string \<Rightarrow> cache_data option" where
  "demoParse content =
     (if content = ''{}'' then Some []
      else if content = ''stale'' then Some [(''data-version'', VersionTag ''0''), (''02'', Library libraryA)]
      else if content = ''warm'' then Some [(''data-version'', VersionTag ''1''), (''02'', Library libraryA)]
      else if content = ''more'' then
        Some [(''data-version'', VersionTag ''1''), (''0f'', Library libraryGone), (''02'', Library libraryA)]
      else None)"

definition demoPlatform :: platform where
  "demoPlatform =
     \<lparr>createReadStream =
        (\<lambda>fs p. case fs p of
                  Some (File c) \<Rightarrow> [Readable (Some c), Readable None]
                | Some Directory \<Rightarrow> [ErrorEvent ''EISDIR'']
                | None \<Rightarrow> [ErrorEvent ''ENOENT'']),
      sha1 = (\<lambda>content. [length content]),
      jsonParse = demoParse,
      jsonStringify = (\<lambda>d. concat (map (\<lambda>(k, v). k @ '';'') d)),
      aarTransform =
        (\<lambda>opts fs.
           if optAarPathAndFilename opts = ''bad'' then (Inl ''broken archive'', fs)
           else
             (Inr \<lparr>packageName = ''p.'' @ take 1 (optAarPathAndFilename opts),
                   explodedPath = outputPath opts @ ''/x'', jars = [], nativeLibraries = []\<rparr>,
              fs(outputPath opts @ ''/x'' \<mapsto> Directory))),
      writeFault = (\<lambda>p c. None)\<rparr>"

definition faultyPlatform :: platform where
  "faultyPlatform = demoPlatform\<lparr>writeFault := (\<lambda>p c. Some 4)\<rparr>"

definition demoBuilder :: builder where
  "demoBuilder =
     \<lparr>buildIntermediatesDir = ''i'', buildBinAssetsDir = ''assets'', localJniGenDir = ''jni'',
      androidLibraries = [], classPaths = Map.empty\<rparr>"

text \<open>
  The inputs: \<open>a\<close> and \<open>b\<close> have the same content, \<open>a2\<close> and \<open>c\<close> differ from both, and
  \<open>bad\<close> is an archive the transformer rejects; \<open>dir.aar\<close> is a directory.
\<close>

definition demoDisk :: filesystem where
  "demoDisk =
     [''a'' \<mapsto> File ''xx'', ''b'' \<mapsto> File ''xx'', ''a2'' \<mapsto> File ''zzz'', ''c'' \<mapsto> File ''wwww'',
      ''bad'' \<mapsto> File ''vvvvv'', ''dir.aar'' \<mapsto> Directory]"

definition cacheFile :: "string \<Rightarrow> filesystem" where
  "cacheFile content =
     demoDisk(''i/exploded-aar'' \<mapsto> Directory, ''i/exploded-aar/x'' \<mapsto> Directory,
              ''i/exploded-aar/state.json'' \<mapsto> File content)"

text \<open>The state of a run that has loaded the cache of an earlier build of \<open>a\<close>.\<close>

definition warmState :: hook_state where
  "warmState =
     startState demoBuilder (cacheFile ''warm'')
       [(''data-version'', VersionTag ''1''), (''02'', Library libraryA)] [TransformingBundled]"

text \<open>The state of a run that starts without a cache file, and the state after task \<open>a\<close>.\<close>

definition coldState :: hook_state where
  "coldState =
     startState demoBuilder demoDisk [(''data-version'', VersionTag ''1'')] [TransformingBundled]"

definition afterA :: hook_state where
  "afterA = snd (processTask demoPlatform BUILD_VARIANT_APP (projectLibraryTask ''a'') coldState)"

text \<open>
  Every key of the cache is the reserved key or the hash of a library of this run: so it
  is after the cache was flushed. The inputs the transformer was called for, in the order
  of the calls, and the number of tasks the log reports as served from the cache.
\<close>

definition onlyThisRun :: "hook_state \<Rightarrow> bool" where
  "onlyThisRun s = (set (cache_keys (cacheData s)) \<subseteq> insert data_version (fst ` set (libraryHashMap s)))"

definition transformedInputs :: "hook_state \<Rightarrow> string list" where
  "transformedInputs s = map optAarPathAndFilename (transformCalls s)"

definition hitCount :: "hook_state \<Rightarrow> nat" where
  "hitCount s = length (filter isNotChanged (trace s))"


definition failedRun :: "unit cb \<times> hook_state" where
  "failedRun =
     transformAndroidLibraries demoPlatform [projectLibraryTask ''c'', projectLibraryTask ''bad'']
       demoBuilder BUILD_VARIANT_APP (cacheFile ''warm'')"

definition emptyRun :: "string \<Rightarrow> unit cb \<times> hook_state" where
  "emptyRun content =
     transformAndroidLibraries demoPlatform [] demoBuilder BUILD_VARIANT_APP (cacheFile content)"

text \<open>
  The library the transformer makes of \<open>a2\<close>, which has the package name of \<open>a\<close>, and
  the state in which the conflict is found.
\<close>

definition conflictState :: hook_state where
  "conflictState = snd (doTransform demoPlatform BUILD_VARIANT_APP (projectLibraryTask ''a2'') ''03'' afterA)"

definition libraryA2 :: library_info where
  "libraryA2 =
     \<lparr>packageName = ''p.a'', explodedPath = ''i/exploded-aar/x'', jars = [], nativeLibraries = [],
      sha256 = ''03'', task = projectLibraryTask ''a2''\<rparr>"

section \<open>Properties\<close>

subsection \<open>Unfolding a run on concrete inputs\<close>

lemmas run_defs =
  transformAndroidLibraries_def cachePath_def aarOutputPath_def path_join_def path_dirname_def
  newSimpleFileCache_def existsSync_def readFileSync_def unlinkSync_def mkdirSyncRecursive_def
  writeFileSync_def checkDataVersion_def cache_has_def cache_get_def cache_flush_def cache_set_def
  cache_keys_def cache_remove_def AList.delete_eq startState_def processTask_def waterfall_def
  hashFile_def skipLibraryIfDuplicate_def doTransform_def invokeTransform_def transformOptions_def
  ensureUniquePackageName_def formatDupeInfo_def conflictMessage_def guidance_def
  updateBuilderWithTransformResult_def seriesDone_def unusedKeys_def persist_def hexEncode_def
  hexDigit_def data_version_def HOOK_DATA_VERSION_def Let_def

lemmas demo_defs =
  demoPlatform_def faultyPlatform_def demoBuilder_def demoDisk_def cacheFile_def demoParse_def
  libraryA_def libraryGone_def projectLibraryTask_def moduleLibraryTask_def

subsection \<open>The digest and the steps of the waterfall\<close>

lemma hexDigit_range: "hexDigit n \<in> set ''0123456789abcdef''"
proof -
  have "n mod 16 < length ''0123456789abcdef''" by simp
  then show ?thesis unfolding hexDigit_def by (rule nth_mem)
qed

lemma hexEncode_range: "set (hexEncode bs) \<subseteq> set ''0123456789abcdef''"
  unfolding hexEncode_def using hexDigit_range by auto

lemma hexEncode_not_data_version: "hexEncode bs \<noteq> data_version"
proof
  assume "hexEncode bs = data_version"
  then have "CHR ''-'' \<in> set (hexEncode bs)" by (simp add: data_version_def)
  with hexEncode_range [of bs] show False by auto
qed

lemma hashFileEvents_Ok: "hashFileEvents f acc evs = Ok h \<Longrightarrow> h \<noteq> data_version"
  by (induction f acc evs rule: hashFileEvents.induct) (auto simp: hexEncode_not_data_version)

lemma hashFileEvents_no_Err: "hashFileEvents f acc evs \<noteq> Err e"
  by (induction f acc evs rule: hashFileEvents.induct) auto

lemma cacheWellFormed_lookup:
  "cacheWellFormed d \<Longrightarrow> map_of d k = Some v \<Longrightarrow>
     (case v of VersionTag x \<Rightarrow> k = data_version | Library r \<Rightarrow> sha256 r = k)"
  by (auto simp: cacheWellFormed_def list_all_iff dest!: map_of_SomeD)

lemma cache_get_map_of: "cache_get d k = map_of d k"
  by (simp add: cache_get_def cache_has_def)

lemma processTask_unfold:
  "processTask P v t s =
     (case hashFileEvents (sha1 P) [] (createReadStream P (disk s) (aarPathAndFilename t)) of
        Ok h \<Rightarrow>
          (case map_of (libraryHashMap s) h of
             Some dup \<Rightarrow> (Broken TypeError, s)
           | None \<Rightarrow>
               (case doTransform P v t h s of
                  (Ok li, s1) \<Rightarrow>
                    (case ensureUniquePackageName li s1 of
                       (Ok li', s2) \<Rightarrow> updateBuilderWithTransformResult v li' s2
                     | (Err e, s2) \<Rightarrow> (Err e, s2)
                     | (Broken x, s2) \<Rightarrow> (Broken x, s2))
                | (Err e, s1) \<Rightarrow> (Err e, s1)
                | (Broken x, s1) \<Rightarrow> (Broken x, s1)))
      | Err e \<Rightarrow> (Err e, s)
      | Broken x \<Rightarrow> (Broken x, s))"
  by (simp add: processTask_def waterfall_def hashFile_def skipLibraryIfDuplicate_def
      split: cb.splits option.splits prod.splits)

lemma invokeTransform_frame:
  "invokeTransform P v t h s = (r, s1) \<Longrightarrow>
     cacheData s1 = cacheData s \<and> libraryHashMap s1 = libraryHashMap s \<and>
     packageNameMap s1 = packageNameMap s \<and> builder s1 = builder s \<and>
     fileWrites s1 = fileWrites s \<and> trace s1 = trace s \<and>
     transformCalls s1 = transformCalls s @ [transformOptions (builder s) v t]"
  by (auto simp: invokeTransform_def Let_def split: prod.splits sum.splits)

lemma invokeTransform_Ok:
  "invokeTransform P v t h s = (Ok li, s1) \<Longrightarrow> sha256 li = h \<and> task li = t"
  by (auto simp: invokeTransform_def Let_def split: prod.splits sum.splits)

lemma doTransform_frame:
  "doTransform P v t h s = (r, s1) \<Longrightarrow>
     cacheData s1 = cacheData s \<and> libraryHashMap s1 = libraryHashMap s \<and>
     packageNameMap s1 = packageNameMap s \<and> builder s1 = builder s \<and>
     fileWrites s1 = fileWrites s"
  by (auto simp: doTransform_def split: option.splits cache_value.splits if_splits
      dest: invokeTransform_frame)

lemma ensureUniquePackageName_state:
  "ensureUniquePackageName li s = (r, s1) \<Longrightarrow> s1 = s"
  by (auto simp: ensureUniquePackageName_def split: option.splits)

lemma ensureUniquePackageName_Ok:
  "ensureUniquePackageName li s = (Ok li', s1) \<Longrightarrow>
     li' = li \<and> map_of (packageNameMap s) (packageName li) = None"
  by (auto simp: ensureUniquePackageName_def split: option.splits)

subsection \<open>Loading the cache\<close>

text \<open>
  C9. When the cache file is absent, or is a file that does not parse, the constructor
  yields the empty store, the unparsable file is removed, and no exception leaves the
  constructor; a run with at least one task then goes on exactly as it does when there is
  no cache file at all.
\<close>

theorem unreadable_cache_file_is_discarded:
  assumes "fs p = None \<or> (\<exists>content. fs p = Some (File content) \<and> jsonParse P content = None)"
  shows "newSimpleFileCache P p fs = Some ([], fs(p := None))
         \<and> (transformTasks \<noteq> [] \<and> p = cachePath b \<longrightarrow>
              transformAndroidLibraries P transformTasks b buildVariant fs
              = transformAndroidLibraries P transformTasks b buildVariant (fs(p := None)))"
proof -
  have load: "newSimpleFileCache P p fs = Some ([], fs(p := None))"
  proof (cases "fs p")
    case None
    then have "fs(p := None) = fs" by (simp add: fun_upd_idem)
    with None show ?thesis by (simp add: newSimpleFileCache_def existsSync_def)
  next
    case (Some n)
    with assms obtain content where "fs p = Some (File content)" "jsonParse P content = None"
      by auto
    then show ?thesis
      by (simp add: newSimpleFileCache_def existsSync_def readFileSync_def unlinkSync_def)
  qed
  have absent: "newSimpleFileCache P p (fs(p := None)) = Some ([], fs(p := None))"
    by (simp add: newSimpleFileCache_def existsSync_def)
  show ?thesis using load absent by (auto simp: transformAndroidLibraries_def)
qed

theorem unreadable_cache_file_is_discarded_witness:
  "newSimpleFileCache demoPlatform (cachePath demoBuilder) (cacheFile ''junk'')
     = Some ([], (cacheFile ''junk'')(cachePath demoBuilder := None))
   \<and> transformAndroidLibraries demoPlatform [projectLibraryTask ''a''] demoBuilder BUILD_VARIANT_APP
       (cacheFile ''junk'')
     = transformAndroidLibraries demoPlatform [projectLibraryTask ''a''] demoBuilder BUILD_VARIANT_APP
         ((cacheFile ''junk'')(cachePath demoBuilder := None))
   \<and> fst (transformAndroidLibraries demoPlatform [projectLibraryTask ''a''] demoBuilder BUILD_VARIANT_APP
       (cacheFile ''junk'')) = Ok ()"
proof -
  have h: "cacheFile ''junk'' (cachePath demoBuilder) = None
           \<or> (\<exists>content. cacheFile ''junk'' (cachePath demoBuilder) = Some (File content)
                \<and> jsonParse demoPlatform content = None)"
    by (simp add: demo_defs cachePath_def aarOutputPath_def path_join_def)
  have ok: "fst (transformAndroidLibraries demoPlatform [projectLibraryTask ''a''] demoBuilder BUILD_VARIANT_APP
       (cacheFile ''junk'')) = Ok ()"
    by (simp add: run_defs demo_defs)
  show ?thesis
    using h ok
      unreadable_cache_file_is_discarded [where fs = "cacheFile ''junk''" and p = "cachePath demoBuilder"
        and P = demoPlatform and transformTasks = "[projectLibraryTask ''a'']" and b = demoBuilder
        and buildVariant = BUILD_VARIANT_APP]
    by simp
qed

subsection \<open>Cache hit or transform\<close>

lemma updateBuilder_transformCalls:
  "transformCalls (snd (updateBuilderWithTransformResult v li s)) = transformCalls s"
  by (simp add: updateBuilderWithTransformResult_def Let_def)

lemma processTask_after_doTransform:
  assumes "fst (hashFile P t s) = Ok h" and "map_of (libraryHashMap s) h = None"
  shows "processTask P v t s =
           (case doTransform P v t h s of
              (Ok li, s1) \<Rightarrow>
                (case ensureUniquePackageName li s1 of
                   (Ok li', s2) \<Rightarrow> updateBuilderWithTransformResult v li' s2
                 | (Err e, s2) \<Rightarrow> (Err e, s2)
                 | (Broken x, s2) \<Rightarrow> (Broken x, s2))
            | (Err e, s1) \<Rightarrow> (Err e, s1)
            | (Broken x, s1) \<Rightarrow> (Broken x, s1))"
  using assms by (simp add: processTask_unfold hashFile_def)

lemma processTask_transformCalls:
  assumes "fst (hashFile P t s) = Ok h" and "map_of (libraryHashMap s) h = None"
  shows "transformCalls (snd (processTask P v t s)) = transformCalls (snd (doTransform P v t h s))"
  unfolding processTask_after_doTransform [OF assms]
  by (auto split: prod.splits cb.splits simp: updateBuilder_transformCalls
      dest: ensureUniquePackageName_state)

lemma hashFile_Ok_not_reserved: "fst (hashFile P t s) = Ok h \<Longrightarrow> h \<noteq> data_version"
  by (auto simp: hashFile_def dest: hashFileEvents_Ok)

lemma doTransform_hit:
  "cacheHit s t h cached \<Longrightarrow>
     doTransform P v t h s = (Ok cached, s\<lparr>trace := trace s @ [NotChanged (aarPathAndFilename t)]\<rparr>)"
  by (simp add: cacheHit_def doTransform_def cache_get_map_of)

lemma doTransform_miss:
  assumes "cacheWellFormed (cacheData s)" and "h \<noteq> data_version" and "\<nexists>cached. cacheHit s t h cached"
  shows "doTransform P v t h s = invokeTransform P v t h s"
proof (cases "map_of (cacheData s) h")
  case None
  then show ?thesis by (simp add: doTransform_def cache_get_map_of)
next
  case (Some val)
  show ?thesis
  proof (cases val)
    case (VersionTag x)
    with Some cacheWellFormed_lookup [OF assms(1) Some] assms(2) show ?thesis by simp
  next
    case (Library cached)
    with Some assms(3) show ?thesis
      by (auto simp: doTransform_def cache_get_map_of cacheHit_def)
  qed
qed

text \<open>
  C3. For a task whose digest \<open>h\<close> is not in \<open>libraryHashMap\<close>, the transformer is not
  called if and only if the cache has a library under \<open>h\<close> that was made from the same
  input path and whose exploded directory still exists; then the cached library is the
  result of \<open>doTransform\<close> and, when its package name is free, the library the builder
  receives. In every other case the transformer is called once, with the options of this task.
  The cache is one this hook wrote.
\<close>

theorem transform_skipped_iff_cache_hit:
  assumes "cacheWellFormed (cacheData s)"
      and "fst (hashFile P t s) = Ok h"
      and "map_of (libraryHashMap s) h = None"
  shows "(transformCalls (snd (processTask P v t s)) = transformCalls s
            \<longleftrightarrow> (\<exists>cached. cacheHit s t h cached))
       \<and> (\<forall>cached. cacheHit s t h cached \<longrightarrow>
            doTransform P v t h s
              = (Ok cached, s\<lparr>trace := trace s @ [NotChanged (aarPathAndFilename t)]\<rparr>)
            \<and> (map_of (packageNameMap s) (packageName cached) = None \<longrightarrow>
                 androidLibraries (builder (snd (processTask P v t s)))
                   = androidLibraries (builder s) @ [cached]))
       \<and> ((\<nexists>cached. cacheHit s t h cached) \<longrightarrow>
            transformCalls (snd (processTask P v t s))
              = transformCalls s @ [transformOptions (builder s) v t])"
proof -
  note calls = processTask_transformCalls [OF assms(2,3), of v]
  have hit: "transformCalls (snd (processTask P v t s)) = transformCalls s"
    if "cacheHit s t h cached" for cached
    using that calls by (simp add: doTransform_hit)
  have used: "androidLibraries (builder (snd (processTask P v t s))) = androidLibraries (builder s) @ [cached]"
    if "cacheHit s t h cached" "map_of (packageNameMap s) (packageName cached) = None" for cached
    using that
    by (simp add: processTask_after_doTransform [OF assms(2,3)] doTransform_hit
        ensureUniquePackageName_def updateBuilderWithTransformResult_def Let_def)
  have miss: "transformCalls (snd (processTask P v t s)) = transformCalls s @ [transformOptions (builder s) v t]"
    if "\<nexists>cached. cacheHit s t h cached"
  proof -
    have "doTransform P v t h s = invokeTransform P v t h s"
      using assms(1) hashFile_Ok_not_reserved [OF assms(2)] that by (rule doTransform_miss)
    then show ?thesis
      using calls invokeTransform_frame [of P v t h s "fst (invokeTransform P v t h s)" "snd (invokeTransform P v t h s)"]
      by simp
  qed
  show ?thesis using hit used miss doTransform_hit by (metis append_self_conv not_Cons_self2)
qed

theorem transform_skipped_iff_cache_hit_witness:
  "transformCalls (snd (processTask demoPlatform BUILD_VARIANT_APP (projectLibraryTask ''a'') warmState))
     = transformCalls warmState
   \<and> androidLibraries (builder (snd (processTask demoPlatform BUILD_VARIANT_APP (projectLibraryTask ''a'') warmState)))
     = [libraryA]"
proof -
  have wf: "cacheWellFormed (cacheData warmState)"
    by (simp add: warmState_def startState_def cacheWellFormed_def libraryA_def data_version_def)
  have hash: "fst (hashFile demoPlatform (projectLibraryTask ''a'') warmState) = Ok ''02''"
    by (simp add: warmState_def run_defs demo_defs)
  have fresh: "map_of (libraryHashMap warmState) ''02'' = None"
    by (simp add: warmState_def startState_def)
  have hit: "cacheHit warmState (projectLibraryTask ''a'') ''02'' libraryA"
    by (simp add: cacheHit_def warmState_def run_defs demo_defs)
  have free: "map_of (packageNameMap warmState) (packageName libraryA) = None"
    by (simp add: warmState_def startState_def)
  have base: "androidLibraries (builder warmState) = []"
    by (simp add: warmState_def startState_def demoBuilder_def)
  from transform_skipped_iff_cache_hit [OF wf hash fresh, of BUILD_VARIANT_APP] hit free base
  show ?thesis by auto
qed

subsection \<open>Accepted tasks\<close>

lemma processTask_Ok_D:
  assumes "processTask P v t s = (Ok u, s1)"
  shows "\<exists>h li s'. fst (hashFile P t s) = Ok h \<and> map_of (libraryHashMap s) h = None
           \<and> doTransform P v t h s = (Ok li, s')
           \<and> map_of (packageNameMap s) (packageName li) = None
           \<and> updateBuilderWithTransformResult v li s' = (Ok (), s1)"
proof -
  from assms obtain h where h: "fst (hashFile P t s) = Ok h"
    and fresh: "map_of (libraryHashMap s) h = None"
    by (auto simp: processTask_unfold hashFile_def split: cb.splits option.splits)
  obtain r s' where dt: "doTransform P v t h s = (r, s')" by (cases "doTransform P v t h s")
  with assms h fresh obtain li where r: "r = Ok li"
    by (cases r) (auto simp: processTask_after_doTransform)
  obtain r2 s2 where eu: "ensureUniquePackageName li s' = (r2, s2)"
    by (cases "ensureUniquePackageName li s'")
  with assms h fresh dt r obtain li' where r2: "r2 = Ok li'"
    by (cases r2) (auto simp: processTask_after_doTransform)
  from eu r2 have "li' = li" "s2 = s'" "map_of (packageNameMap s') (packageName li) = None"
    using ensureUniquePackageName_Ok ensureUniquePackageName_state by blast+
  moreover from doTransform_frame [OF dt] have "packageNameMap s' = packageNameMap s" by simp
  moreover from assms h fresh dt r eu r2
  have "updateBuilderWithTransformResult v li' s2 = (Ok u, s1)"
    by (simp add: processTask_after_doTransform)
  ultimately show ?thesis using h fresh dt r by auto
qed

lemma doTransform_Ok_D:
  assumes "cacheWellFormed (cacheData s)" and "doTransform P v t h s = (Ok li, s')"
  shows "sha256 li = h \<and> aarPathAndFilename (task li) = aarPathAndFilename t"
proof (cases "\<exists>cached. cacheHit s t h cached")
  case True
  then obtain cached where hit: "cacheHit s t h cached" ..
  with assms(2) have "li = cached" by (simp add: doTransform_hit)
  moreover from hit have "map_of (cacheData s) h = Some (Library cached)"
    by (simp add: cacheHit_def)
  from cacheWellFormed_lookup [OF assms(1) this] have "sha256 cached = h" by simp
  ultimately show ?thesis using hit by (simp add: cacheHit_def)
next
  case False
  show ?thesis
  proof (cases "map_of (cacheData s) h")
    case None
    with assms(2) show ?thesis
      by (auto simp: doTransform_def cache_get_map_of dest: invokeTransform_Ok)
  next
    case (Some val)
    with assms(2) False show ?thesis
      by (cases val) (auto simp: doTransform_def cache_get_map_of cacheHit_def
          dest: invokeTransform_Ok split: if_splits)
  qed
qed

lemma processTask_duplicate:
  assumes "fst (hashFile P t s) = Ok h" and "map_of (libraryHashMap s) h = Some dup"
  shows "processTask P v t s = (Broken TypeError, s)"
  using assms by (simp add: processTask_unfold hashFile_def)

lemma updateBuilder_fields:
  "updateBuilderWithTransformResult v li s = (r, s1) \<Longrightarrow>
     r = Ok ()
     \<and> libraryHashMap s1 = AList.update (sha256 li) li (libraryHashMap s)
     \<and> packageNameMap s1 = AList.update (packageName li) li (packageNameMap s)
     \<and> androidLibraries (builder s1) = androidLibraries (builder s) @ [li]
     \<and> cacheData s1 = AList.update (sha256 li) (Library li) (cacheData s)
     \<and> transformCalls s1 = transformCalls s \<and> trace s1 = trace s
     \<and> fileWrites s1 = fileWrites s \<and> disk s1 = disk s"
  by (auto simp: updateBuilderWithTransformResult_def Let_def cache_set_def)

subsection \<open>The outcomes of one task\<close>

lemma processTask_cases:
  obtains
    (broken) x where "processTask P v t s = (Broken x, s)"
  | (transformed) h where "fst (hashFile P t s) = Ok h" "map_of (libraryHashMap s) h = None"
      "processTask P v t s =
           (case doTransform P v t h s of
              (Ok li, s1) \<Rightarrow>
                (case ensureUniquePackageName li s1 of
                   (Ok li', s2) \<Rightarrow> updateBuilderWithTransformResult v li' s2
                 | (Err e, s2) \<Rightarrow> (Err e, s2)
                 | (Broken x, s2) \<Rightarrow> (Broken x, s2))
            | (Err e, s1) \<Rightarrow> (Err e, s1)
            | (Broken x, s1) \<Rightarrow> (Broken x, s1))"
proof (cases "fst (hashFile P t s)")
  case (Ok h)
  show ?thesis
  proof (cases "map_of (libraryHashMap s) h")
    case None
    with Ok show ?thesis using transformed processTask_after_doTransform by blast
  next
    case (Some dup)
    with Ok show ?thesis using broken processTask_duplicate by blast
  qed
next
  case (Err e)
  then show ?thesis by (simp add: hashFile_def hashFileEvents_no_Err)
next
  case (Broken x)
  then have "processTask P v t s = (Broken x, s)"
    by (simp add: processTask_unfold hashFile_def)
  then show ?thesis by (rule broken)
qed

lemma doTransform_no_skip: "doTransform P v t h s \<noteq> (Err SkipLibraryError, s')"
  by (auto simp: doTransform_def invokeTransform_def Let_def
      split: option.splits cache_value.splits prod.splits sum.splits if_splits)

lemma ensureUniquePackageName_no_skip: "ensureUniquePackageName li s \<noteq> (Err SkipLibraryError, s')"
  by (auto simp: ensureUniquePackageName_def split: option.splits)

lemma processTask_no_skip: "processTask P v t s \<noteq> (Err SkipLibraryError, s')"
proof (cases rule: processTask_cases [of P v t s])
  case (broken x)
  then show ?thesis by simp
next
  case (transformed h)
  then show ?thesis
    using doTransform_no_skip [of P v t h s] ensureUniquePackageName_no_skip
    by (auto simp: updateBuilderWithTransformResult_def Let_def split: prod.splits cb.splits)
qed

subsection \<open>Duplicates\<close>

text \<open>
  C4. The claim has a task with a registered digest skipped, with the skip consumed by
  the callback of the waterfall, so that two inputs with the same content give one library
  and a run that goes on. The code does not get there. After \<open>a\<close> was accepted, the
  digest of \<open>b\<close> is registered, and \<open>skipLibraryIfDuplicate\<close> throws while it builds its
  log line: the task ends with a \<open>TypeError\<close> and not with \<open>SkipLibraryError\<close>
  (\<open>processTask_duplicate\<close>; no task ever ends with it, \<open>processTask_no_skip\<close>), and the
  run over \<open>a\<close> and \<open>b\<close> never reaches the hook's callback and writes no cache file.
\<close>

theorem duplicate_task_throws:
  "fst (hashFile demoPlatform (projectLibraryTask ''b'') afterA) = Ok ''02''
   \<and> map_of (libraryHashMap afterA) ''02'' = Some libraryA
   \<and> skipLibraryIfDuplicate (projectLibraryTask ''b'') ''02'' afterA = (Broken TypeError, afterA)
   \<and> processTask demoPlatform BUILD_VARIANT_APP (projectLibraryTask ''b'') afterA
       = (Broken TypeError, afterA)
   \<and> fst (transformAndroidLibraries demoPlatform [projectLibraryTask ''a'', projectLibraryTask ''b'']
        demoBuilder BUILD_VARIANT_APP demoDisk) = Broken TypeError
   \<and> fileWrites (snd (transformAndroidLibraries demoPlatform
        [projectLibraryTask ''a'', projectLibraryTask ''b''] demoBuilder BUILD_VARIANT_APP demoDisk)) = []"
  by (simp add: afterA_def coldState_def run_defs demo_defs)

subsection \<open>A change of the data version\<close>

lemma doTransform_after_flush:
  assumes "onlyThisRun s" and "fst (hashFile P t s) = Ok h" and "map_of (libraryHashMap s) h = None"
  shows "doTransform P v t h s = invokeTransform P v t h s"
proof -
  from assms(3) have "h \<notin> fst ` set (libraryHashMap s)" by (simp add: map_of_eq_None_iff)
  moreover note hashFile_Ok_not_reserved [OF assms(2)]
  ultimately have "h \<notin> fst ` set (cacheData s)"
    using assms(1) by (auto simp: onlyThisRun_def cache_keys_def)
  then have "map_of (cacheData s) h = None" by (simp add: map_of_eq_None_iff)
  then show ?thesis by (simp add: doTransform_def cache_get_map_of)
qed

lemma processTask_after_flush:
  assumes "onlyThisRun s" and "processTask P v t s = (r, s1)"
  shows "hitCount s1 = hitCount s
       \<and> (transformedInputs s1 = transformedInputs s
            \<or> transformedInputs s1 = transformedInputs s @ [aarPathAndFilename t])
       \<and> (r = Ok () \<longrightarrow>
            onlyThisRun s1 \<and> transformedInputs s1 = transformedInputs s @ [aarPathAndFilename t])"
proof (cases rule: processTask_cases [of P v t s])
  case (broken x)
  with assms(2) show ?thesis by auto
next
  case (transformed h)
  obtain r' s' where inv: "invokeTransform P v t h s = (r', s')"
    by (cases "invokeTransform P v t h s")
  note fr = invokeTransform_frame [OF inv]
  from fr have called: "transformedInputs s' = transformedInputs s @ [aarPathAndFilename t]"
    by (simp add: transformedInputs_def transformOptions_def)
  from transformed inv doTransform_after_flush [OF assms(1) transformed(1,2), of v]
  have pt: "processTask P v t s =
      (case r' of
         Ok li \<Rightarrow>
           (case ensureUniquePackageName li s' of
              (Ok li', s2) \<Rightarrow> updateBuilderWithTransformResult v li' s2
            | (Err e, s2) \<Rightarrow> (Err e, s2)
            | (Broken x, s2) \<Rightarrow> (Broken x, s2))
       | Err e \<Rightarrow> (Err e, s')
       | Broken x \<Rightarrow> (Broken x, s'))"
    by (simp split: cb.splits)
  show ?thesis
  proof (cases r')
    case (Ok li)
    obtain r2 s2 where eu: "ensureUniquePackageName li s' = (r2, s2)"
      by (cases "ensureUniquePackageName li s'")
    then have s2: "s2 = s'" by (rule ensureUniquePackageName_state)
    show ?thesis
    proof (cases r2)
      case (Ok li')
      with eu have "li' = li" by (auto dest: ensureUniquePackageName_Ok)
      with pt \<open>r' = Ok li\<close> eu Ok s2 assms(2)
      have upd: "updateBuilderWithTransformResult v li s' = (r, s1)" by simp
      note uf = updateBuilder_fields [OF upd]
      from uf fr assms(1) have "onlyThisRun s1"
        by (auto simp: onlyThisRun_def cache_keys_def dom_update)
      with uf fr called show ?thesis by (simp add: hitCount_def transformedInputs_def)
    next
      case (Err e)
      with pt \<open>r' = Ok li\<close> eu s2 assms(2) have "r = Err e" "s1 = s'" by simp_all
      then show ?thesis using fr called by (simp add: hitCount_def)
    next
      case (Broken x)
      with pt \<open>r' = Ok li\<close> eu s2 assms(2) have "r = Broken x" "s1 = s'" by simp_all
      then show ?thesis using fr called by (simp add: hitCount_def)
    qed
  next
    case (Err e)
    with pt assms(2) have "r = Err e" "s1 = s'" by simp_all
    then show ?thesis using fr called by (simp add: hitCount_def)
  next
    case (Broken x)
    with pt assms(2) have "r = Broken x" "s1 = s'" by simp_all
    then show ?thesis using fr called by (simp add: hitCount_def)
  qed
qed

lemma eachSeries_after_flush:
  assumes "onlyThisRun s"
  shows "hitCount (snd (eachSeries P v ts s)) = hitCount s
       \<and> prefix (transformedInputs (snd (eachSeries P v ts s)))
           (transformedInputs s @ map aarPathAndFilename ts)
       \<and> (fst (eachSeries P v ts s) = Ok () \<longrightarrow>
            transformedInputs (snd (eachSeries P v ts s))
              = transformedInputs s @ map aarPathAndFilename ts)"
  using assms
proof (induction ts arbitrary: s)
  case Nil
  show ?case by simp
next
  case (Cons t ts)
  obtain r s1 where pt: "processTask P v t s = (r, s1)" by (cases "processTask P v t s")
  note step = processTask_after_flush [OF Cons.prems pt]
  show ?case
  proof (cases "r = Ok ()")
    case True
    with pt have "eachSeries P v (t # ts) s = eachSeries P v ts s1" by simp
    with Cons.IH [of s1] step True show ?thesis by simp
  next
    case False
    moreover from pt processTask_no_skip [of P v t s s1] have "r \<noteq> Err SkipLibraryError" by auto
    ultimately have "eachSeries P v (t # ts) s = (r, s1)"
      using pt by (cases r) (auto split: hook_error.splits)
    with step False show ?thesis by (auto simp: prefix_def)
  qed
qed

lemma persist_frame:
  "persist P p s = (r, s') \<Longrightarrow>
     transformCalls s' = transformCalls s \<and> trace s' = trace s \<and> cacheData s' = cacheData s
     \<and> libraryHashMap s' = libraryHashMap s \<and> packageNameMap s' = packageNameMap s
     \<and> builder s' = builder s
     \<and> fileWrites s' = fileWrites s @ [(p, jsonStringify P (cacheData s))]"
  by (auto simp: persist_def Let_def split: prod.splits)

lemma seriesDone_frame:
  "seriesDone P p (r, s) = (r', s') \<Longrightarrow>
     transformCalls s' = transformCalls s \<and> trace s' = trace s
     \<and> libraryHashMap s' = libraryHashMap s \<and> packageNameMap s' = packageNameMap s
     \<and> builder s' = builder s \<and> (r' = Ok () \<longrightarrow> r = Ok ())"
  by (cases r) (auto simp: seriesDone_def dest!: persist_frame)

lemma checkDataVersion_flush:
  assumes "map_of loaded data_version = Some old" and "old \<noteq> VersionTag HOOK_DATA_VERSION"
  shows "checkDataVersion loaded = ([(data_version, VersionTag HOOK_DATA_VERSION)], [CacheOutOfDate])"
  using assms by (simp add: checkDataVersion_def cache_has_def cache_get_def cache_flush_def cache_set_def)

text \<open>
  C2. When the loaded data have a \<open>data-version\<close> that is not the current one, the
  version check leaves exactly one entry, the current version under \<open>data-version\<close>,
  before any task runs. In the run that follows no task is served from the cache: the
  transformer is called for the inputs, one after the other, as far as the run gets, and
  in a run that succeeds it is called for every input.
\<close>

theorem version_change_clears_cache:
  assumes "transformTasks \<noteq> []"
      and "newSimpleFileCache P (cachePath b) fs = Some (loaded, fs1)"
      and "map_of loaded data_version = Some old"
      and "old \<noteq> VersionTag HOOK_DATA_VERSION"
  shows "checkDataVersion loaded = ([(data_version, VersionTag HOOK_DATA_VERSION)], [CacheOutOfDate])
       \<and> hitCount (snd (transformAndroidLibraries P transformTasks b v fs)) = 0
       \<and> prefix (transformedInputs (snd (transformAndroidLibraries P transformTasks b v fs)))
           (map aarPathAndFilename transformTasks)
       \<and> (fst (transformAndroidLibraries P transformTasks b v fs) = Ok () \<longrightarrow>
            transformedInputs (snd (transformAndroidLibraries P transformTasks b v fs))
              = map aarPathAndFilename transformTasks)"
proof -
  let ?s0 = "startState b fs1 [(data_version, VersionTag HOOK_DATA_VERSION)]
               [CacheOutOfDate, TransformingBundled]"
  let ?e = "eachSeries P v transformTasks ?s0"
  note flush = checkDataVersion_flush [OF assms(3,4)]
  have run: "transformAndroidLibraries P transformTasks b v fs = seriesDone P (cachePath b) ?e"
    using assms(1,2) flush by (simp add: transformAndroidLibraries_def)
  have only: "onlyThisRun ?s0" by (simp add: onlyThisRun_def startState_def cache_keys_def)
  have s0: "hitCount ?s0 = 0" "transformedInputs ?s0 = []"
    by (simp_all add: hitCount_def transformedInputs_def startState_def)
  note series = eachSeries_after_flush [OF only, of P v transformTasks]
  obtain r s where e: "?e = (r, s)" by (cases ?e)
  obtain r' s' where d: "seriesDone P (cachePath b) (r, s) = (r', s')"
    by (cases "seriesDone P (cachePath b) (r, s)")
  note fr = seriesDone_frame [OF d]
  from fr have same: "hitCount s' = hitCount s" "transformedInputs s' = transformedInputs s"
    by (simp_all add: hitCount_def transformedInputs_def)
  from series e s0 same fr have "hitCount s' = 0"
    and "prefix (transformedInputs s') (map aarPathAndFilename transformTasks)"
    and "r' = Ok () \<longrightarrow> transformedInputs s' = map aarPathAndFilename transformTasks"
    by auto
  with run e d flush show ?thesis by simp
qed

theorem version_change_clears_cache_witness:
  "checkDataVersion [(''data-version'', VersionTag ''0''), (''02'', Library libraryA)]
     = ([(data_version, VersionTag HOOK_DATA_VERSION)], [CacheOutOfDate])
   \<and> hitCount (snd (transformAndroidLibraries demoPlatform [projectLibraryTask ''a'', projectLibraryTask ''c'']
        demoBuilder BUILD_VARIANT_APP (cacheFile ''stale''))) = 0
   \<and> transformedInputs (snd (transformAndroidLibraries demoPlatform
        [projectLibraryTask ''a'', projectLibraryTask ''c''] demoBuilder BUILD_VARIANT_APP (cacheFile ''stale'')))
     = [''a'', ''c'']"
proof -
  have load: "newSimpleFileCache demoPlatform (cachePath demoBuilder) (cacheFile ''stale'')
      = Some ([(''data-version'', VersionTag ''0''), (''02'', Library libraryA)], cacheFile ''stale'')"
    by (simp add: demo_defs newSimpleFileCache_def existsSync_def readFileSync_def cachePath_def
        aarOutputPath_def path_join_def)
  have old: "map_of [(''data-version'', VersionTag ''0''), (''02'', Library libraryA)] data_version
      = Some (VersionTag ''0'')"
    by (simp add: data_version_def)
  have differs: "VersionTag ''0'' \<noteq> VersionTag HOOK_DATA_VERSION"
    by (simp add: HOOK_DATA_VERSION_def)
  have ne: "[projectLibraryTask ''a'', projectLibraryTask ''c''] \<noteq> []" by simp
  have ok: "fst (transformAndroidLibraries demoPlatform [projectLibraryTask ''a'', projectLibraryTask ''c'']
        demoBuilder BUILD_VARIANT_APP (cacheFile ''stale'')) = Ok ()"
    by (simp add: run_defs demo_defs)
  have paths: "map aarPathAndFilename [projectLibraryTask ''a'', projectLibraryTask ''c''] = [''a'', ''c'']"
    by (simp add: projectLibraryTask_def)
  from version_change_clears_cache [OF ne load old differs, of BUILD_VARIANT_APP] ok paths
  show ?thesis by simp
qed

subsection \<open>What a task changes\<close>

lemma processTask_rejected:
  assumes "processTask P v t s = (r, s1)" and "r \<noteq> Ok ()"
  shows "cacheData s1 = cacheData s \<and> libraryHashMap s1 = libraryHashMap s
       \<and> packageNameMap s1 = packageNameMap s \<and> builder s1 = builder s
       \<and> fileWrites s1 = fileWrites s"
proof (cases rule: processTask_cases [of P v t s])
  case (broken x)
  with assms show ?thesis by simp
next
  case (transformed h)
  obtain r' s' where dt: "doTransform P v t h s = (r', s')" by (cases "doTransform P v t h s")
  note fr = doTransform_frame [OF dt]
  show ?thesis
  proof (cases r')
    case (Ok li)
    obtain r2 s2 where eu: "ensureUniquePackageName li s' = (r2, s2)"
      by (cases "ensureUniquePackageName li s'")
    then have s2: "s2 = s'" by (rule ensureUniquePackageName_state)
    show ?thesis
    proof (cases r2)
      case (Ok li')
      with transformed(3) dt \<open>r' = Ok li\<close> eu s2 assms(1)
      have "updateBuilderWithTransformResult v li' s' = (r, s1)" by simp
      from updateBuilder_fields [OF this] assms(2) show ?thesis by simp
    next
      case (Err e)
      with transformed(3) dt \<open>r' = Ok li\<close> eu s2 assms(1) fr show ?thesis by simp
    next
      case (Broken x)
      with transformed(3) dt \<open>r' = Ok li\<close> eu s2 assms(1) fr show ?thesis by simp
    qed
  next
    case (Err e)
    with transformed(3) dt assms fr show ?thesis by simp
  next
    case (Broken x)
    with transformed(3) dt assms fr show ?thesis by simp
  qed
qed

lemma processTask_accepted:
  assumes "processTask P v t s = (Ok u, s1)"
  shows "\<exists>h li s'. fst (hashFile P t s) = Ok h \<and> map_of (libraryHashMap s) h = None
           \<and> doTransform P v t h s = (Ok li, s')
           \<and> map_of (packageNameMap s) (packageName li) = None
           \<and> libraryHashMap s1 = AList.update (sha256 li) li (libraryHashMap s)
           \<and> packageNameMap s1 = AList.update (packageName li) li (packageNameMap s)
           \<and> androidLibraries (builder s1) = androidLibraries (builder s) @ [li]
           \<and> cacheData s1 = AList.update (sha256 li) (Library li) (cacheData s)
           \<and> fileWrites s1 = fileWrites s"
proof -
  from processTask_Ok_D [OF assms] obtain h li s' where
    a: "fst (hashFile P t s) = Ok h" "map_of (libraryHashMap s) h = None"
       "doTransform P v t h s = (Ok li, s')" "map_of (packageNameMap s) (packageName li) = None"
       "updateBuilderWithTransformResult v li s' = (Ok (), s1)"
    by blast
  from doTransform_frame [OF a(3)] updateBuilder_fields [OF a(5)] a(1-4)
  show ?thesis by auto
qed

lemma processTask_fileWrites: "fileWrites (snd (processTask P v t s)) = fileWrites s"
proof (cases "processTask P v t s")
  case (Pair r s1)
  then show ?thesis
    using processTask_rejected [of P v t s r s1] processTask_accepted [of P v t s _ s1]
    by (cases "r = Ok ()") auto
qed



lemma eachSeries_fileWrites: "fileWrites (snd (eachSeries P v ts s)) = fileWrites s"
proof (induction ts arbitrary: s)
  case Nil
  show ?case by simp
next
  case (Cons t ts)
  obtain r s1 where pt: "processTask P v t s = (r, s1)" by (cases "processTask P v t s")
  with processTask_fileWrites [of P v t s] have "fileWrites s1 = fileWrites s" by simp
  with pt Cons.IH [of s1] show ?case
    by (auto split: cb.splits hook_error.splits)
qed


lemma invokeTransform_disk:
  assumes "\<forall>opts d. snd (aarTransform P opts d) p = d p"
  shows "disk (snd (invokeTransform P v t h s)) p = disk s p"
proof -
  let ?opts = "transformOptions (builder s) v t"
  obtain r fs' where tr: "aarTransform P ?opts (disk s) = (r, fs')"
    by (cases "aarTransform P ?opts (disk s)")
  with assms [rule_format, of ?opts "disk s"] have "fs' p = disk s p" by simp
  with tr show ?thesis by (simp add: invokeTransform_def Let_def split: sum.splits)
qed

lemma doTransform_disk:
  assumes "\<forall>opts d. snd (aarTransform P opts d) p = d p"
  shows "disk (snd (doTransform P v t h s)) p = disk s p"
  using invokeTransform_disk [OF assms]
  by (simp add: doTransform_def split: option.splits cache_value.splits)

lemma processTask_disk:
  assumes "\<forall>opts d. snd (aarTransform P opts d) p = d p"
  shows "disk (snd (processTask P v t s)) p = disk s p"
proof (cases rule: processTask_cases [of P v t s])
  case (broken x)
  then show ?thesis by simp
next
  case (transformed h)
  obtain r' s' where dt: "doTransform P v t h s = (r', s')" by (cases "doTransform P v t h s")
  with doTransform_disk [OF assms, of v t h s] have d: "disk s' p = disk s p" by simp
  show ?thesis
  proof (cases r')
    case (Ok li)
    obtain r2 s2 where eu: "ensureUniquePackageName li s' = (r2, s2)"
      by (cases "ensureUniquePackageName li s'")
    then have s2: "s2 = s'" by (rule ensureUniquePackageName_state)
    show ?thesis
    proof (cases r2)
      case (Ok li')
      obtain r3 s3 where upd: "updateBuilderWithTransformResult v li' s' = (r3, s3)"
        by (cases "updateBuilderWithTransformResult v li' s'")
      from updateBuilder_fields [OF upd] transformed(3) dt \<open>r' = Ok li\<close> eu s2 Ok upd d
      show ?thesis by simp
    next
      case (Err e)
      with transformed(3) dt \<open>r' = Ok li\<close> eu s2 d show ?thesis by simp
    next
      case (Broken x)
      with transformed(3) dt \<open>r' = Ok li\<close> eu s2 d show ?thesis by simp
    qed
  next
    case (Err e)
    with transformed(3) dt d show ?thesis by simp
  next
    case (Broken x)
    with transformed(3) dt d show ?thesis by simp
  qed
qed

lemma eachSeries_disk:
  assumes "\<forall>opts d. snd (aarTransform P opts d) p = d p"
  shows "disk (snd (eachSeries P v ts s)) p = disk s p"
proof (induction ts arbitrary: s)
  case Nil
  show ?case by simp
next
  case (Cons t ts)
  obtain r s1 where pt: "processTask P v t s = (r, s1)" by (cases "processTask P v t s")
  with processTask_disk [OF assms, of v t s] have "disk s1 p = disk s p" by simp
  with pt Cons.IH [of s1] show ?case
    by (auto split: cb.splits hook_error.splits)
qed

subsection \<open>The end of the run\<close>





lemma path_dirname_cachePath: "path_dirname (cachePath b) = aarOutputPath b"
  by (simp add: path_dirname_def cachePath_def path_join_def)

lemma aarOutputPath_not_cachePath: "aarOutputPath b \<noteq> cachePath b"
  by (simp add: cachePath_def path_join_def)


lemma run_unfold:
  assumes "transformTasks \<noteq> []" and "newSimpleFileCache P (cachePath b) fs = Some (loaded, fs1)"
  shows "transformAndroidLibraries P transformTasks b v fs
           = seriesDone P (cachePath b)
               (eachSeries P v transformTasks
                  (startState b fs1 (fst (checkDataVersion loaded))
                     (snd (checkDataVersion loaded) @ [TransformingBundled])))"
  using assms by (simp add: transformAndroidLibraries_def split: prod.splits)

lemma demo_load:
  "demoParse content = Some d \<Longrightarrow>
     newSimpleFileCache demoPlatform (cachePath demoBuilder) (cacheFile content)
       = Some (d, cacheFile content)"
  by (simp add: newSimpleFileCache_def existsSync_def readFileSync_def cachePath_def aarOutputPath_def
      path_join_def demoPlatform_def demoBuilder_def cacheFile_def)




text \<open>
  C6, as the code has it. In a run with at least one task, nothing is written while the
  tasks are processed. When all tasks succeeded, \<open>writeFileSync\<close> is called exactly
  once, on the cache file and with the final data. When a task failed, the run ends with
  that failure in the state the series stopped in, so without a write; the cache file is
  then as the constructor left it (unless the transformer itself touches it), and the
  constructor leaves a file that parses as it is.
\<close>

theorem cache_file_written_once:
  assumes "transformTasks \<noteq> []"
      and "newSimpleFileCache P (cachePath b) fs = Some (loaded, fs1)"
      and "eachSeries P v transformTasks
             (startState b fs1 (fst (checkDataVersion loaded))
                (snd (checkDataVersion loaded) @ [TransformingBundled])) = (r1, s1)"
      and "transformAndroidLibraries P transformTasks b v fs = (r, s')"
  shows "fileWrites s1 = []
       \<and> (r1 = Ok () \<longrightarrow> fileWrites s' = [(cachePath b, jsonStringify P (cacheData s'))])
       \<and> (r1 \<noteq> Ok () \<longrightarrow> r = r1 \<and> s' = s1)
       \<and> ((\<forall>opts d. snd (aarTransform P opts d) (cachePath b) = d (cachePath b))
            \<longrightarrow> disk s1 (cachePath b) = fs1 (cachePath b))
       \<and> (Option.bind (readFileSync fs (cachePath b)) (jsonParse P) \<noteq> None \<longrightarrow> fs1 = fs)"
proof -
  let ?s0 = "startState b fs1 (fst (checkDataVersion loaded))
               (snd (checkDataVersion loaded) @ [TransformingBundled])"
  from run_unfold [OF assms(1,2), of v] assms(3,4)
  have d: "seriesDone P (cachePath b) (r1, s1) = (r, s')" by simp
  from eachSeries_fileWrites [of P v transformTasks ?s0] assms(3)
  have w1: "fileWrites s1 = []" by (simp add: startState_def)
  have w2: "fileWrites s' = [(cachePath b, jsonStringify P (cacheData s'))]" if "r1 = Ok ()"
  proof -
    from d that have "persist P (cachePath b)
        (s1\<lparr>cacheData := foldl cache_remove (cacheData s1) (unusedKeys s1)\<rparr>) = (r, s')"
      by (simp add: seriesDone_def)
    from persist_frame [OF this] w1 show ?thesis by simp
  qed
  have stop: "r = r1 \<and> s' = s1" if "r1 \<noteq> Ok ()"
    using d that by (cases r1) (auto simp: seriesDone_def)
  have intact: "disk s1 (cachePath b) = fs1 (cachePath b)"
    if "\<forall>opts d. snd (aarTransform P opts d) (cachePath b) = d (cachePath b)"
    using eachSeries_disk [OF that, of v transformTasks ?s0] assms(3) by (simp add: startState_def)
  have loaded: "fs1 = fs" if "Option.bind (readFileSync fs (cachePath b)) (jsonParse P) \<noteq> None"
    using assms(2) that by (auto simp: newSimpleFileCache_def split: if_splits option.splits)
  from w1 w2 stop intact loaded show ?thesis by blast
qed

theorem cache_file_written_once_witness:
  "fst failedRun = Err (TransformError ''broken archive'')
   \<and> fileWrites (snd failedRun) = []
   \<and> disk (snd failedRun) (cachePath demoBuilder) = Some (File ''warm'')"
proof -
  let ?loaded = "[(''data-version'', VersionTag ''1''), (''02'', Library libraryA)]"
  let ?e = "eachSeries demoPlatform BUILD_VARIANT_APP [projectLibraryTask ''c'', projectLibraryTask ''bad'']
             (startState demoBuilder (cacheFile ''warm'') (fst (checkDataVersion ?loaded))
                (snd (checkDataVersion ?loaded) @ [TransformingBundled]))"
  have ne: "[projectLibraryTask ''c'', projectLibraryTask ''bad''] \<noteq> []" by simp
  have load: "newSimpleFileCache demoPlatform (cachePath demoBuilder) (cacheFile ''warm'')
      = Some (?loaded, cacheFile ''warm'')"
    by (rule demo_load) (simp add: demoParse_def)
  have series: "?e = (Err (TransformError ''broken archive''), snd ?e)"
    by (simp add: run_defs demo_defs)
  have run: "transformAndroidLibraries demoPlatform [projectLibraryTask ''c'', projectLibraryTask ''bad'']
      demoBuilder BUILD_VARIANT_APP (cacheFile ''warm'') = (fst failedRun, snd failedRun)"
    by (simp add: failedRun_def)
  have keeps: "\<forall>opts d. snd (aarTransform demoPlatform opts d) (cachePath demoBuilder)
      = d (cachePath demoBuilder)"
    by (simp add: demoPlatform_def cachePath_def aarOutputPath_def path_join_def)
  have there: "cacheFile ''warm'' (cachePath demoBuilder) = Some (File ''warm'')"
    by (simp add: cacheFile_def cachePath_def aarOutputPath_def path_join_def demoBuilder_def)
  from cache_file_written_once [OF ne load series run] keeps there show ?thesis by auto
qed

text \<open>
  C6 as stated has the cache file written exactly once in a run. A run without tasks
  succeeds and writes nothing.
\<close>

theorem empty_run_writes_nothing_counterexample:
  "fst (emptyRun ''warm'') = Ok () \<and> fileWrites (snd (emptyRun ''warm'')) = []"
  by (simp add: emptyRun_def run_defs demo_defs)

subsection \<open>Persisting\<close>

text \<open>
  C8, as the code has it. \<open>persist\<close> makes the parent directory and hands the whole
  serialization to one \<open>writeFileSync\<close> on the cache file itself. Unless a directory
  is in the place of the file, or a file in the place of its directory: when the write
  returns, the file holds the complete serialization; when it fails after \<open>k\<close> bytes,
  \<open>persist\<close> throws and the file holds these \<open>k\<close> bytes. There is no temporary file
  and no rename.
\<close>

theorem persist_writes_in_place:
  "existsSync (disk (snd (persist P (cachePath b) s))) (aarOutputPath b)
   \<and> fileWrites (snd (persist P (cachePath b) s))
       = fileWrites s @ [(cachePath b, jsonStringify P (cacheData s))]
   \<and> (disk s (cachePath b) \<noteq> Some Directory \<and> (\<forall>c. disk s (aarOutputPath b) \<noteq> Some (File c)) \<longrightarrow>
        (case writeFault P (cachePath b) (jsonStringify P (cacheData s)) of
           None \<Rightarrow>
             fst (persist P (cachePath b) s) = Ok ()
             \<and> disk (snd (persist P (cachePath b) s)) (cachePath b)
                 = Some (File (jsonStringify P (cacheData s)))
         | Some k \<Rightarrow>
             fst (persist P (cachePath b) s) = Broken IoFault
             \<and> disk (snd (persist P (cachePath b) s)) (cachePath b)
                 = Some (File (take k (jsonStringify P (cacheData s))))))"
  using aarOutputPath_not_cachePath [of b]
  by (auto simp: persist_def Let_def writeFileSync_def mkdirSyncRecursive_def existsSync_def
      path_dirname_cachePath split: prod.splits option.splits node.splits)

theorem persist_writes_in_place_witness:
  "\<not> existsSync (disk coldState) (aarOutputPath demoBuilder)
   \<and> fst (persist demoPlatform (cachePath demoBuilder) coldState) = Ok ()
   \<and> disk (snd (persist demoPlatform (cachePath demoBuilder) coldState)) (cachePath demoBuilder)
       = Some (File ''data-version;'')
   \<and> existsSync (disk (snd (persist demoPlatform (cachePath demoBuilder) coldState)))
       (aarOutputPath demoBuilder)"
proof -
  have there: "disk coldState (cachePath demoBuilder) \<noteq> Some Directory"
    "\<forall>c. disk coldState (aarOutputPath demoBuilder) \<noteq> Some (File c)"
    "\<not> existsSync (disk coldState) (aarOutputPath demoBuilder)"
    by (simp_all add: coldState_def startState_def demoDisk_def cachePath_def aarOutputPath_def
        path_join_def demoBuilder_def existsSync_def)
  have nofault: "writeFault demoPlatform (cachePath demoBuilder)
      (jsonStringify demoPlatform (cacheData coldState)) = None"
    by (simp add: demoPlatform_def)
  have content: "jsonStringify demoPlatform (cacheData coldState) = ''data-version;''"
    by (simp add: demoPlatform_def coldState_def startState_def)
  from persist_writes_in_place [of demoPlatform demoBuilder coldState] there nofault content
  show ?thesis by simp
qed

text \<open>
  C8 as stated says that a failed \<open>persist\<close> leaves the old or the new contents. With a
  write that fails after four bytes, the file that held \<open>warm\<close> holds \<open>data\<close>, the
  beginning of the new contents.
\<close>

theorem persist_partial_write_counterexample:
  "disk warmState (cachePath demoBuilder) = Some (File ''warm'')
   \<and> jsonStringify faultyPlatform (cacheData warmState) = ''data-version;02;''
   \<and> fst (persist faultyPlatform (cachePath demoBuilder) warmState) = Broken IoFault
   \<and> disk (snd (persist faultyPlatform (cachePath demoBuilder) warmState)) (cachePath demoBuilder)
       = Some (File ''data'')"
  by (simp add: warmState_def run_defs demo_defs)

subsection \<open>Hashing\<close>

lemma hashFileEvents_chunks:
  "hashFileEvents f acc (map (\<lambda>c. Readable (Some c)) chunks @ Readable None # evs)
     = Ok (hexEncode (f (acc @ concat chunks)))"
  by (induction chunks arbitrary: acc) simp_all

lemma hashFileEvents_error:
  "hashFileEvents f acc (map (\<lambda>c. Readable (Some c)) chunks @ ErrorEvent e # evs)
     = Broken (UnhandledStreamError e)"
  by (induction chunks arbitrary: acc) simp_all

text \<open>
  C7. A stream that delivers its chunks and then \<open>null\<close> gives the hex digest of all
  the bytes (\<open>hashFileEvents_chunks\<close>). But \<open>done\<close> is never called with an error
  (\<open>hashFileEvents_no_Err\<close>): an \<open>error\<close> event finds no listener. For an input that
  cannot be read, here a directory named like an archive, the hook's callback is never
  reached, neither with an error nor without.
\<close>

theorem unreadable_input_never_reaches_callback:
  "hashFile demoPlatform (projectLibraryTask ''dir.aar'') coldState
     = (Broken (UnhandledStreamError ''EISDIR''), coldState)
   \<and> fst (transformAndroidLibraries demoPlatform [projectLibraryTask ''dir.aar''] demoBuilder
        BUILD_VARIANT_APP demoDisk) = Broken (UnhandledStreamError ''EISDIR'')
   \<and> fileWrites (snd (transformAndroidLibraries demoPlatform [projectLibraryTask ''dir.aar''] demoBuilder
        BUILD_VARIANT_APP demoDisk)) = []"
  by (simp add: coldState_def run_defs demo_defs)

subsection \<open>The registries, the builder and the cache agree\<close>

lemma update_fresh_key: "map_of al k = None \<Longrightarrow> AList.update k v al = al @ [(k, v)]"
  by (induction al) (auto split: if_splits)

lemma set_update_subset: "set (AList.update k v al) \<subseteq> insert (k, v) (set al)"
  by (induction al) auto

lemma cacheWellFormed_update:
  "cacheWellFormed d \<Longrightarrow> sha256 li = h \<Longrightarrow> cacheWellFormed (AList.update h (Library li) d)"
  using set_update_subset [of h "Library li" d]
  by (auto simp: cacheWellFormed_def list_all_iff)

lemma cacheWellFormed_checkDataVersion:
  assumes "cacheWellFormed loaded"
  shows "cacheWellFormed (fst (checkDataVersion loaded))"
proof -
  have "cacheWellFormed (AList.update data_version (VersionTag x) d)" if "cacheWellFormed d" for x d
    using that set_update_subset [of data_version "VersionTag x" d]
    by (auto simp: cacheWellFormed_def list_all_iff)
  moreover have "cacheWellFormed []" "cacheWellFormed [(data_version, VersionTag HOOK_DATA_VERSION)]"
    by (simp_all add: cacheWellFormed_def)
  ultimately show ?thesis using assms
    by (simp add: checkDataVersion_def cache_set_def cache_flush_def Let_def split: prod.splits)
qed

lemma registriesConsistent_cong:
  assumes "cacheData s1 = cacheData s" and "libraryHashMap s1 = libraryHashMap s"
      and "packageNameMap s1 = packageNameMap s" and "builder s1 = builder s"
  shows "registriesConsistent base s1 = registriesConsistent base s"
  using assms by (simp add: registriesConsistent_def acceptedThisRun_def)

lemma registriesConsistent_accept:
  assumes inv: "registriesConsistent base s"
      and h: "map_of (libraryHashMap s) (sha256 li) = None"
      and n: "map_of (packageNameMap s) (packageName li) = None"
      and lhm: "libraryHashMap s1 = AList.update (sha256 li) li (libraryHashMap s)"
      and pnm: "packageNameMap s1 = AList.update (packageName li) li (packageNameMap s)"
      and libs: "androidLibraries (builder s1) = androidLibraries (builder s) @ [li]"
      and cache: "cacheData s1 = AList.update (sha256 li) (Library li) (cacheData s)"
  shows "registriesConsistent base s1"
proof -
  let ?acc = "acceptedThisRun base s"
  from inv have base: "take (length base) (androidLibraries (builder s)) = base"
    by (simp add: registriesConsistent_def)
  then have "length (take (length base) (androidLibraries (builder s))) = length base" by simp
  then have len: "length base \<le> length (androidLibraries (builder s))"
    by (simp add: min_def split: if_splits)
  with libs have acc: "acceptedThisRun base s1 = ?acc @ [li]"
    by (simp add: acceptedThisRun_def)
  from len libs base have base1: "take (length base) (androidLibraries (builder s1)) = base"
    by simp
  from lhm h have lhm1: "libraryHashMap s1 = libraryHashMap s @ [(sha256 li, li)]"
    by (simp add: update_fresh_key)
  from pnm n have pnm1: "packageNameMap s1 = packageNameMap s @ [(packageName li, li)]"
    by (simp add: update_fresh_key)
  from inv have old: "\<forall>r \<in> set ?acc. map_of (libraryHashMap s) (sha256 r) = Some r
      \<and> map_of (packageNameMap s) (packageName r) = Some r
      \<and> map_of (cacheData s) (sha256 r) = Some (Library r)"
    by (simp add: registriesConsistent_def list_all_iff)
  have a: "list_all (\<lambda>(k, r). sha256 r = k \<and> r \<in> set (acceptedThisRun base s1)) (libraryHashMap s1)"
    using inv by (auto simp: registriesConsistent_def list_all_iff lhm1 acc)
  have b: "list_all (\<lambda>(k, r). packageName r = k \<and> r \<in> set (acceptedThisRun base s1)) (packageNameMap s1)"
    using inv by (auto simp: registriesConsistent_def list_all_iff pnm1 acc)
  have c: "map_of (libraryHashMap s1) (sha256 r) = Some r
      \<and> map_of (packageNameMap s1) (packageName r) = Some r
      \<and> map_of (cacheData s1) (sha256 r) = Some (Library r)" if "r \<in> set (?acc @ [li])" for r
  proof (cases "r \<in> set ?acc")
    case True
    with old have r: "map_of (libraryHashMap s) (sha256 r) = Some r"
      "map_of (packageNameMap s) (packageName r) = Some r"
      "map_of (cacheData s) (sha256 r) = Some (Library r)" by auto
    with h have "sha256 r \<noteq> sha256 li" by auto
    with r show ?thesis by (simp add: lhm1 pnm1 cache update_conv' map_add_def)
  next
    case False
    with that have "r = li" by simp
    with h n show ?thesis by (simp add: lhm1 pnm1 cache update_conv' map_add_def)
  qed
  then have "list_all (\<lambda>r. map_of (libraryHashMap s1) (sha256 r) = Some r
      \<and> map_of (packageNameMap s1) (packageName r) = Some r
      \<and> map_of (cacheData s1) (sha256 r) = Some (Library r)) (acceptedThisRun base s1)"
    unfolding acc list_all_iff by blast
  with a b base1 show ?thesis unfolding registriesConsistent_def by blast
qed

lemma processTask_consistent:
  assumes "cacheWellFormed (cacheData s)" and "registriesConsistent base s"
  shows "registriesConsistent base (snd (processTask P v t s))
       \<and> cacheWellFormed (cacheData (snd (processTask P v t s)))"
proof (cases "processTask P v t s")
  case (Pair r s1)
  show ?thesis
  proof (cases "r = Ok ()")
    case True
    with Pair have "processTask P v t s = (Ok (), s1)" by simp
    from processTask_accepted [OF this] obtain h li s' where
      a: "fst (hashFile P t s) = Ok h" "map_of (libraryHashMap s) h = None"
         "doTransform P v t h s = (Ok li, s')"
         "map_of (packageNameMap s) (packageName li) = None"
         "libraryHashMap s1 = AList.update (sha256 li) li (libraryHashMap s)"
         "packageNameMap s1 = AList.update (packageName li) li (packageNameMap s)"
         "androidLibraries (builder s1) = androidLibraries (builder s) @ [li]"
         "cacheData s1 = AList.update (sha256 li) (Library li) (cacheData s)"
      by blast
    from doTransform_Ok_D [OF assms(1) a(3)] have sha: "sha256 li = h" by simp
    with a(2) have "map_of (libraryHashMap s) (sha256 li) = None" by simp
    from registriesConsistent_accept [OF assms(2) this a(4,5,6,7,8)]
    have "registriesConsistent base s1" .
    moreover from cacheWellFormed_update [OF assms(1) refl, of li] a(8)
    have "cacheWellFormed (cacheData s1)" by simp
    ultimately show ?thesis using Pair by simp
  next
    case False
    from processTask_rejected [OF Pair False] assms Pair show ?thesis
      by (simp add: registriesConsistent_cong [of s1 s])
  qed
qed

lemma eachSeries_consistent:
  assumes "cacheWellFormed (cacheData s)" and "registriesConsistent base s"
  shows "registriesConsistent base (snd (eachSeries P v ts s))
       \<and> cacheWellFormed (cacheData (snd (eachSeries P v ts s)))"
  using assms
proof (induction ts arbitrary: s)
  case Nil
  then show ?case by simp
next
  case (Cons t ts)
  obtain r s1 where pt: "processTask P v t s = (r, s1)" by (cases "processTask P v t s")
  with processTask_consistent [OF Cons.prems, of P v t]
  have s1: "cacheWellFormed (cacheData s1)" "registriesConsistent base s1" by simp_all
  from Cons.IH [OF s1] s1 pt show ?case
    by (auto split: cb.splits hook_error.splits)
qed

text \<open>
  C10. Start a run on a cache this hook wrote. After any number of tasks, whether the
  last one was accepted or not: every entry of \<open>libraryHashMap\<close> is stored
  under its own \<open>sha256\<close> and every entry of \<open>packageNameMap\<close> under its own
  \<open>packageName\<close>; the libraries pushed to the builder in this run are exactly the
  libraries of the two registries; and each of them is found in both registries and, under
  its \<open>sha256\<close>, in the cache. The cache is again one this hook wrote.
\<close>

theorem registries_stay_consistent:
  assumes "cacheWellFormed loaded"
  shows "registriesConsistent (androidLibraries b)
           (snd (eachSeries P v (take n transformTasks)
                   (startState b fs1 (fst (checkDataVersion loaded)) tr)))
       \<and> cacheWellFormed
           (cacheData (snd (eachSeries P v (take n transformTasks)
                   (startState b fs1 (fst (checkDataVersion loaded)) tr))))"
proof -
  let ?s0 = "startState b fs1 (fst (checkDataVersion loaded)) tr"
  have "cacheWellFormed (cacheData ?s0)"
    using cacheWellFormed_checkDataVersion [OF assms] by (simp add: startState_def)
  moreover have "registriesConsistent (androidLibraries b) ?s0"
    by (simp add: registriesConsistent_def acceptedThisRun_def startState_def)
  ultimately show ?thesis by (rule eachSeries_consistent)
qed

theorem registries_stay_consistent_witness:
  "registriesConsistent (androidLibraries demoBuilder)
     (snd (eachSeries demoPlatform BUILD_VARIANT_APP
             (take 2 [projectLibraryTask ''a'', projectLibraryTask ''b'', projectLibraryTask ''c''])
             (startState demoBuilder (cacheFile ''warm'')
                (fst (checkDataVersion [(''data-version'', VersionTag ''1''), (''02'', Library libraryA)]))
                [TransformingBundled])))
   \<and> acceptedThisRun (androidLibraries demoBuilder)
     (snd (eachSeries demoPlatform BUILD_VARIANT_APP
             (take 2 [projectLibraryTask ''a'', projectLibraryTask ''b'', projectLibraryTask ''c''])
             (startState demoBuilder (cacheFile ''warm'')
                (fst (checkDataVersion [(''data-version'', VersionTag ''1''), (''02'', Library libraryA)]))
                [TransformingBundled]))) = [libraryA]"
proof -
  have wf: "cacheWellFormed [(''data-version'', VersionTag ''1''), (''02'', Library libraryA)]"
    by (simp add: cacheWellFormed_def data_version_def libraryA_def)
  have acc: "acceptedThisRun (androidLibraries demoBuilder)
     (snd (eachSeries demoPlatform BUILD_VARIANT_APP
             (take 2 [projectLibraryTask ''a'', projectLibraryTask ''b'', projectLibraryTask ''c''])
             (startState demoBuilder (cacheFile ''warm'')
                (fst (checkDataVersion [(''data-version'', VersionTag ''1''), (''02'', Library libraryA)]))
                [TransformingBundled]))) = [libraryA]"
    by (simp add: acceptedThisRun_def run_defs demo_defs)
  from registries_stay_consistent [OF wf, of demoBuilder demoPlatform BUILD_VARIANT_APP 2
      "[projectLibraryTask ''a'', projectLibraryTask ''b'', projectLibraryTask ''c'']"
      "cacheFile ''warm''" "[TransformingBundled]"] acc
  show ?thesis by simp
qed

subsection \<open>Conflicting package names\<close>

lemma scanned_tasks: "scannedTask (moduleLibraryTask file m)" "scannedTask (projectLibraryTask file)"
  by (simp_all add: scannedTask_def moduleLibraryTask_def projectLibraryTask_def)

lemma formatDupeInfo_scanned:
  assumes "scannedTask (task r)"
  shows "formatDupeInfo r
           = Some (aarPathAndFilename (task r) @ '' (hash: '' @ sha256 r @ '', ''
                   @ originText (task r) @ '')'')"
  using assms
  by (auto simp: scannedTask_def formatDupeInfo_def originText_def Let_def
      split: library_origin.splits option.splits)

lemma guidance_scanned:
  assumes "scannedTask a" and "scannedTask b"
  shows "guidance (originType a) (originType b)
           = (if originType a = LIBRARY_ORIGIN_MODULE \<and> originType b = LIBRARY_ORIGIN_MODULE
              then guidanceModules
              else if originType a = LIBRARY_ORIGIN_PORJECT \<and> originType b = LIBRARY_ORIGIN_PORJECT
              then guidanceProject
              else guidanceMixed)"
  using assms by (auto simp: scannedTask_def guidance_def split: library_origin.splits)

lemma sublist_in_message:
  assumes "m = c1 @ n @ c2 @ c3 @ c4 @ (p1 @ c5 @ d1 @ c6 @ o1 @ c7) @ c8 @ c9
                 @ (p2 @ c10 @ d2 @ c11 @ o2 @ c12) @ c13 @ g"
  shows "sublist n m \<and> sublist p1 m \<and> sublist p2 m \<and> sublist d1 m \<and> sublist d2 m
       \<and> sublist o1 m \<and> sublist o2 m \<and> suffix g m"
  unfolding assms by (simp add: sublist_append suffix_def)

text \<open>
  C1. Let a task with a digest that is not registered yet obtain its library, from the
  cache or from the transformer, and let \<open>packageNameMap\<close> already hold a library under
  that package name; both stem from tasks of the scanners, and the cache is one this hook
  wrote. Then the series ends at this task with a \<open>ConflictError\<close>, whatever tasks
  follow, and the run's callback receives it without a clean-up or a write. The message
  contains the package name, the paths of both inputs, both digests and both origins, and
  ends with the advice for two modules, for two project libraries, or for a module and
  the project. The registries, the builder and the cache are as they were: the earlier
  library keeps the name.
\<close>

theorem conflicting_package_name_fails_run:
  assumes "cacheWellFormed (cacheData s)"
      and "fst (hashFile P t s) = Ok h"
      and "map_of (libraryHashMap s) h = None"
      and "doTransform P v t h s = (Ok li, s1)"
      and "map_of (packageNameMap s) (packageName li) = Some ex"
      and "scannedTask (task ex)"
      and "scannedTask (task li)"
  shows "\<exists>msg.
           eachSeries P v (t # rest) s = (Err (ConflictError msg), s1)
           \<and> seriesDone P p (eachSeries P v (t # rest) s) = (Err (ConflictError msg), s1)
           \<and> libraryHashMap s1 = libraryHashMap s \<and> packageNameMap s1 = packageNameMap s
           \<and> builder s1 = builder s \<and> cacheData s1 = cacheData s \<and> fileWrites s1 = fileWrites s
           \<and> sublist (packageName li) msg
           \<and> sublist (aarPathAndFilename (task ex)) msg \<and> sublist (aarPathAndFilename t) msg
           \<and> sublist (sha256 ex) msg \<and> sublist h msg
           \<and> sublist (originText (task ex)) msg \<and> sublist (originText (task li)) msg
           \<and> suffix
               (if originType (task ex) = LIBRARY_ORIGIN_MODULE \<and> originType (task li) = LIBRARY_ORIGIN_MODULE
                then guidanceModules
                else if originType (task ex) = LIBRARY_ORIGIN_PORJECT
                        \<and> originType (task li) = LIBRARY_ORIGIN_PORJECT
                then guidanceProject
                else guidanceMixed)
               msg"
proof -
  let ?a = "aarPathAndFilename (task ex) @ '' (hash: '' @ sha256 ex @ '', '' @ originText (task ex) @ '')''"
  let ?b = "aarPathAndFilename (task li) @ '' (hash: '' @ sha256 li @ '', '' @ originText (task li) @ '')''"
  let ?msg = "conflictMessage ex ?a li ?b"
  note fr = doTransform_frame [OF assms(4)]
  from doTransform_Ok_D [OF assms(1,4)]
  have li: "sha256 li = h" "aarPathAndFilename (task li) = aarPathAndFilename t" by simp_all
  have eu: "ensureUniquePackageName li s1 = (Err (ConflictError ?msg), s1)"
    using assms(5) fr formatDupeInfo_scanned [OF assms(6)] formatDupeInfo_scanned [OF assms(7)]
    by (simp add: ensureUniquePackageName_def)
  have pt: "processTask P v t s = (Err (ConflictError ?msg), s1)"
    using assms(4) eu by (simp add: processTask_after_doTransform [OF assms(2,3)])
  then have es: "eachSeries P v (t # rest) s = (Err (ConflictError ?msg), s1)" by simp
  then have sd: "seriesDone P p (eachSeries P v (t # rest) s) = (Err (ConflictError ?msg), s1)"
    by (simp add: seriesDone_def)
  have shape: "sublist (packageName li) ?msg
    \<and> sublist (aarPathAndFilename (task ex)) ?msg \<and> sublist (aarPathAndFilename (task li)) ?msg
    \<and> sublist (sha256 ex) ?msg \<and> sublist (sha256 li) ?msg
    \<and> sublist (originText (task ex)) ?msg \<and> sublist (originText (task li)) ?msg
    \<and> suffix (guidance (originType (task ex)) (originType (task li))) ?msg"
    by (rule sublist_in_message) (rule conflictMessage_def)
  then have names: "sublist (packageName li) ?msg"
    "sublist (aarPathAndFilename (task ex)) ?msg" "sublist (aarPathAndFilename (task li)) ?msg"
    "sublist (sha256 ex) ?msg" "sublist (sha256 li) ?msg"
    "sublist (originText (task ex)) ?msg" "sublist (originText (task li)) ?msg"
    and "suffix (guidance (originType (task ex)) (originType (task li))) ?msg"
    by blast+
  with guidance_scanned [OF assms(6,7)]
  have guide: "suffix
               (if originType (task ex) = LIBRARY_ORIGIN_MODULE \<and> originType (task li) = LIBRARY_ORIGIN_MODULE
                then guidanceModules
                else if originType (task ex) = LIBRARY_ORIGIN_PORJECT
                        \<and> originType (task li) = LIBRARY_ORIGIN_PORJECT
                then guidanceProject
                else guidanceMixed)
               ?msg" by simp
  from es sd fr names guide li show ?thesis by (intro exI [of _ ?msg]) simp
qed

theorem conflicting_package_name_fails_run_witness:
  "\<exists>msg. eachSeries demoPlatform BUILD_VARIANT_APP [projectLibraryTask ''a2'', projectLibraryTask ''c''] afterA
            = (Err (ConflictError msg), conflictState)
         \<and> packageNameMap conflictState = [(''p.a'', libraryA)]
         \<and> sublist ''a'' msg \<and> sublist ''a2'' msg \<and> sublist ''02'' msg \<and> sublist ''03'' msg
         \<and> sublist ''origin: Project'' msg \<and> suffix guidanceProject msg"
proof -
  have wf: "cacheWellFormed (cacheData afterA)"
    by (simp add: afterA_def coldState_def cacheWellFormed_def run_defs demo_defs)
  have hash: "fst (hashFile demoPlatform (projectLibraryTask ''a2'') afterA) = Ok ''03''"
    by (simp add: afterA_def coldState_def run_defs demo_defs)
  have fresh: "map_of (libraryHashMap afterA) ''03'' = None"
    by (simp add: afterA_def coldState_def run_defs demo_defs)
  have rec: "doTransform demoPlatform BUILD_VARIANT_APP (projectLibraryTask ''a2'') ''03'' afterA
      = (Ok libraryA2, conflictState)"
    unfolding conflictState_def libraryA2_def
    by (simp add: afterA_def coldState_def run_defs demo_defs)
  have taken: "map_of (packageNameMap afterA) (packageName libraryA2) = Some libraryA"
    by (simp add: libraryA2_def afterA_def coldState_def run_defs demo_defs)
  have names: "packageNameMap afterA = [(''p.a'', libraryA)]"
    by (simp add: afterA_def coldState_def run_defs demo_defs)
  have sc: "scannedTask (task libraryA)" "scannedTask (task libraryA2)"
    by (simp_all add: libraryA_def libraryA2_def scanned_tasks)
  have vals: "aarPathAndFilename (task libraryA) = ''a''" "sha256 libraryA = ''02''"
    "aarPathAndFilename (projectLibraryTask ''a2'') = ''a2''"
    "originText (task libraryA) = ''origin: Project''"
    "originType (task libraryA) = LIBRARY_ORIGIN_PORJECT"
    "originType (task libraryA2) = LIBRARY_ORIGIN_PORJECT"
    by (simp_all add: libraryA_def libraryA2_def projectLibraryTask_def originText_def)
  from conflicting_package_name_fails_run [OF wf hash fresh rec taken sc,
      of "[projectLibraryTask ''c'']" "cachePath demoBuilder"]
  obtain msg where
    "eachSeries demoPlatform BUILD_VARIANT_APP [projectLibraryTask ''a2'', projectLibraryTask ''c''] afterA
       = (Err (ConflictError msg), conflictState)"
    "packageNameMap conflictState = packageNameMap afterA"
    "sublist (aarPathAndFilename (task libraryA)) msg"
    "sublist (aarPathAndFilename (projectLibraryTask ''a2'')) msg"
    "sublist (sha256 libraryA) msg" "sublist ''03'' msg"
    "sublist (originText (task libraryA)) msg"
    "suffix
       (if originType (task libraryA) = LIBRARY_ORIGIN_MODULE \<and> originType (task libraryA2) = LIBRARY_ORIGIN_MODULE
        then guidanceModules
        else if originType (task libraryA) = LIBRARY_ORIGIN_PORJECT
                \<and> originType (task libraryA2) = LIBRARY_ORIGIN_PORJECT
        then guidanceProject
        else guidanceMixed)
       msg"
    by blast
  with names vals show ?thesis by (intro exI [of _ msg]) simp
qed

end
